theory Spec2Isabelle
  imports Complex_Main
begin

section \<open>Errors and floating-point values\<close>

text \<open>
  The hand-written Transformer of \<^verbatim>\<open>src/session_9/transformer_architectur.ipynb\<close> is
  embedded here. Python exceptions are values of type \<open>error\<close>; a function that can raise
  returns \<open>error + 'a\<close> with \<open>Inl\<close> for the exception. The source is quoted before the
  definitions that embed it, without its comments, type annotations of the arguments of
  \<^verbatim>\<open>forward\<close> and calls of \<^verbatim>\<open>super().__init__()\<close>.
\<close>

datatype error = AssertionError | ZeroDivisionError | RuntimeError | ValueError | IndexError

definition bindE :: "error + 'a \<Rightarrow> ('a \<Rightarrow> error + 'b) \<Rightarrow> error + 'b" where
  "bindE m f = (case m of Inl e \<Rightarrow> Inl e | Inr x \<Rightarrow> f x)"

text \<open>
  Float tensors hold values of type \<open>fl\<close>: a real number, one of the two infinities, or
  NaN. The arithmetic follows the IEEE rules for the special values; finite results are
  exact real numbers (rounding, overflow and the sign of zero are not modelled).
\<close>

datatype fl = Fin real | PosInf | NegInf | NaN

fun fl_neg :: "fl \<Rightarrow> fl" where
  "fl_neg (Fin a) = Fin (- a)"
| "fl_neg PosInf = NegInf"
| "fl_neg NegInf = PosInf"
| "fl_neg NaN = NaN"

fun fl_add :: "fl \<Rightarrow> fl \<Rightarrow> fl" where
  "fl_add NaN y = NaN"
| "fl_add x NaN = NaN"
| "fl_add (Fin a) (Fin b) = Fin (a + b)"
| "fl_add PosInf NegInf = NaN"
| "fl_add NegInf PosInf = NaN"
| "fl_add PosInf y = PosInf"
| "fl_add x PosInf = PosInf"
| "fl_add NegInf y = NegInf"
| "fl_add x NegInf = NegInf"

definition fl_sub :: "fl \<Rightarrow> fl \<Rightarrow> fl" where
  "fl_sub x y = fl_add x (fl_neg y)"

text \<open>The sign of an infinite product or quotient: \<open>inf_signed pos\<close>.\<close>

definition inf_signed :: "bool \<Rightarrow> fl" where
  "inf_signed pos = (if pos then PosInf else NegInf)"

fun fl_mul :: "fl \<Rightarrow> fl \<Rightarrow> fl" where
  "fl_mul NaN y = NaN"
| "fl_mul x NaN = NaN"
| "fl_mul (Fin a) (Fin b) = Fin (a * b)"
| "fl_mul (Fin a) PosInf = (if a = 0 then NaN else inf_signed (0 < a))"
| "fl_mul (Fin a) NegInf = (if a = 0 then NaN else inf_signed (a < 0))"
| "fl_mul PosInf (Fin b) = (if b = 0 then NaN else inf_signed (0 < b))"
| "fl_mul NegInf (Fin b) = (if b = 0 then NaN else inf_signed (b < 0))"
| "fl_mul PosInf PosInf = PosInf"
| "fl_mul PosInf NegInf = NegInf"
| "fl_mul NegInf PosInf = NegInf"
| "fl_mul NegInf NegInf = PosInf"

fun fl_div :: "fl \<Rightarrow> fl \<Rightarrow> fl" where
  "fl_div NaN y = NaN"
| "fl_div x NaN = NaN"
| "fl_div (Fin a) (Fin b) =
     (if b \<noteq> 0 then Fin (a / b) else if a = 0 then NaN else inf_signed (0 < a))"
| "fl_div (Fin a) PosInf = Fin 0"
| "fl_div (Fin a) NegInf = Fin 0"
| "fl_div PosInf (Fin b) = inf_signed (0 \<le> b)"
| "fl_div NegInf (Fin b) = inf_signed (b < 0)"
| "fl_div PosInf y = NaN"
| "fl_div NegInf y = NaN"

fun fl_exp :: "fl \<Rightarrow> fl" where
  "fl_exp (Fin a) = Fin (exp a)"
| "fl_exp PosInf = PosInf"
| "fl_exp NegInf = Fin 0"
| "fl_exp NaN = NaN"

fun fl_sin :: "fl \<Rightarrow> fl" where
  "fl_sin (Fin a) = Fin (sin a)"
| "fl_sin x = NaN"

fun fl_cos :: "fl \<Rightarrow> fl" where
  "fl_cos (Fin a) = Fin (cos a)"
| "fl_cos x = NaN"

text \<open>\<^verbatim>\<open>torch.max\<close> propagates NaN.\<close>

fun fl_max :: "fl \<Rightarrow> fl \<Rightarrow> fl" where
  "fl_max NaN y = NaN"
| "fl_max x NaN = NaN"
| "fl_max PosInf y = PosInf"
| "fl_max x PosInf = PosInf"
| "fl_max NegInf y = y"
| "fl_max x NegInf = x"
| "fl_max (Fin a) (Fin b) = Fin (max a b)"

fun fl_sum :: "fl list \<Rightarrow> fl" where
  "fl_sum [] = Fin 0"
| "fl_sum (x # xs) = fl_add x (fl_sum xs)"

text \<open>\<^verbatim>\<open>.bool()\<close>: every value other than zero is true, NaN included.\<close>

fun fl_to_bool :: "fl \<Rightarrow> bool" where
  "fl_to_bool (Fin a) = (a \<noteq> 0)"
| "fl_to_bool x = True"

section \<open>Tensors\<close>

text \<open>
  A tensor is its shape and its elements, read by a full index (one position per
  dimension). Only the elements at indices inside the shape are meaningful.
\<close>

record 'a tensor =
  shape :: "nat list"
  elem :: "nat list \<Rightarrow> 'a"

definition rank :: "'a tensor \<Rightarrow> nat" where
  "rank t = length (shape t)"

definition valid_index :: "nat list \<Rightarrow> nat list \<Rightarrow> bool" where
  "valid_index sh idx = list_all2 (\<lambda>i d. i < d) idx sh"

definition tmap :: "('a \<Rightarrow> 'b) \<Rightarrow> 'a tensor \<Rightarrow> 'b tensor" where
  "tmap f t = \<lparr>shape = shape t, elem = (\<lambda>idx. f (elem t idx))\<rparr>"

subsection \<open>Broadcasting\<close>

text \<open>
  Two shapes are aligned at their last dimension; two sizes are compatible when they are
  equal or one of them is 1 (a size 1 also stretches to a size 0).
\<close>

fun broadcast_rev :: "nat list \<Rightarrow> nat list \<Rightarrow> nat list option" where
  "broadcast_rev [] ys = Some ys"
| "broadcast_rev (x # xs) [] = Some (x # xs)"
| "broadcast_rev (x # xs) (y # ys) =
     (if x = y \<or> y = 1 then map_option ((#) x) (broadcast_rev xs ys)
      else if x = 1 then map_option ((#) y) (broadcast_rev xs ys)
      else None)"

definition broadcast_shapes :: "nat list \<Rightarrow> nat list \<Rightarrow> nat list option" where
  "broadcast_shapes a b = map_option rev (broadcast_rev (rev a) (rev b))"

text \<open>The index at which an operand of shape \<open>sh\<close> is read for the result index \<open>idx\<close>.\<close>

definition broadcast_index :: "nat list \<Rightarrow> nat list \<Rightarrow> nat list" where
  "broadcast_index sh idx =
     map2 (\<lambda>d i. if d = 1 then 0 else i) sh (drop (length idx - length sh) idx)"

definition broadcast_op :: "('a \<Rightarrow> 'b \<Rightarrow> 'c) \<Rightarrow> 'a tensor \<Rightarrow> 'b tensor \<Rightarrow> error + 'c tensor" where
  "broadcast_op f a b =
     (case broadcast_shapes (shape a) (shape b) of
        None \<Rightarrow> Inl RuntimeError
      | Some sh \<Rightarrow>
          Inr \<lparr>shape = sh,
               elem = (\<lambda>idx. f (elem a (broadcast_index (shape a) idx))
                               (elem b (broadcast_index (shape b) idx)))\<rparr>)"

subsection \<open>Shape operations\<close>

text \<open>A dimension argument may be negative; it then counts from the end.\<close>

definition wrap_dim :: "int \<Rightarrow> nat \<Rightarrow> error + nat" where
  "wrap_dim d n =
     (if - int n \<le> d \<and> d < int n then Inr (nat (if d < 0 then d + int n else d))
      else Inl IndexError)"

definition size_dim :: "'a tensor \<Rightarrow> int \<Rightarrow> error + nat" where
  "size_dim t d = bindE (wrap_dim d (rank t)) (\<lambda>k. Inr (shape t ! k))"

definition unsqueeze :: "int \<Rightarrow> 'a tensor \<Rightarrow> error + 'a tensor" where
  "unsqueeze d t =
     bindE (wrap_dim d (rank t + 1)) (\<lambda>k.
       Inr \<lparr>shape = take k (shape t) @ [1] @ drop k (shape t),
            elem = (\<lambda>idx. elem t (take k idx @ drop (Suc k) idx))\<rparr>)"

subsection \<open>Creation and elementwise operations\<close>

definition full :: "int list \<Rightarrow> 'a \<Rightarrow> error + 'a tensor" where
  "full sizes v =
     (if \<exists>s \<in> set sizes. s < 0 then Inl RuntimeError
      else Inr \<lparr>shape = map nat sizes, elem = (\<lambda>idx. v)\<rparr>)"

text \<open>
  Storage. The constructors create tensors whose sizes are their integer arguments: the
  table and the ranges of \<^verbatim>\<open>PositionalEncoding\<close> (\<^verbatim>\<open>torch.zeros\<close>, \<^verbatim>\<open>torch.arange\<close>) and the
  parameters of \<^verbatim>\<open>nn.Linear\<close> and \<^verbatim>\<open>nn.LayerNorm\<close>. Such a tensor is allocated, and the
  allocation raises \<^verbatim>\<open>RuntimeError\<close> when the machine cannot provide the storage. The
  machine is a parameter \<open>mem\<close> of the constructors: the largest number of elements it can
  give to one tensor. On no machine does a tensor have more than \<open>max_numel\<close> elements:
  the size of its storage in bytes is a signed 64-bit number, and an element takes up to
  eight bytes (the integers of \<^verbatim>\<open>torch.arange(0, d_model, 2)\<close>; a float takes four, and no
  machine addresses the \<open>2 ^ 62\<close> bytes of \<open>2 ^ 60\<close> floats).
  A tensor that is computed from tensors that exist (an elementwise operation, a product,
  the masks of a forward pass) is taken to fit.
\<close>

definition max_numel :: nat where
  "max_numel = 2 ^ 60 - 1"

definition allocates :: "nat \<Rightarrow> nat \<Rightarrow> bool" where
  "allocates mem n = (n \<le> mem \<and> n \<le> max_numel)"

definition zeros :: "nat \<Rightarrow> int list \<Rightarrow> error + fl tensor" where
  "zeros mem sizes =
     (if (\<exists>s \<in> set sizes. s < 0) \<or> \<not> allocates mem (prod_list (map nat sizes)) then Inl RuntimeError
      else full sizes (Fin 0))"

definition ones :: "int list \<Rightarrow> error + fl tensor" where
  "ones sizes = full sizes (Fin 1)"

text \<open>
  \<^verbatim>\<open>torch.triu(t, diagonal=k)\<close> keeps the elements of the last two dimensions with
  \<open>j - i \<ge> k\<close> and zeroes the others.
\<close>

definition triu :: "fl tensor \<Rightarrow> int \<Rightarrow> error + fl tensor" where
  "triu t k =
     (if rank t < 2 then Inl RuntimeError
      else Inr \<lparr>shape = shape t,
                elem = (\<lambda>idx. let i = idx ! (length idx - 2); j = idx ! (length idx - 1)
                               in if k \<le> int j - int i then elem t idx else Fin 0)\<rparr>)"

definition ne_scalar :: "int tensor \<Rightarrow> int \<Rightarrow> bool tensor" where
  "ne_scalar t c = tmap (\<lambda>x. x \<noteq> c) t"

definition rsub_scalar :: "real \<Rightarrow> fl tensor \<Rightarrow> fl tensor" where
  "rsub_scalar c t = tmap (\<lambda>x. fl_sub (Fin c) x) t"

definition to_bool :: "fl tensor \<Rightarrow> bool tensor" where
  "to_bool t = tmap fl_to_bool t"

definition logical_and :: "bool tensor \<Rightarrow> bool tensor \<Rightarrow> error + bool tensor" where
  "logical_and a b = broadcast_op (\<and>) a b"

section \<open>Transformer.create\_mask\<close>

text \<open>
  \<^verbatim>\<open>
  def create_mask(self, src, tgt):
      src_mask = (src != 0).unsqueeze(1).unsqueeze(2)
      tgt_mask = (tgt != 0).unsqueeze(1).unsqueeze(2)
      seq_length = tgt.size(1)
      nopeak_mask = (1 - torch.triu(torch.ones(1, seq_length, seq_length), diagonal=1)).bool()
      tgt_mask = tgt_mask & nopeak_mask
      return src_mask, tgt_mask
  \<close>
\<close>

definition nopeak :: "nat \<Rightarrow> error + bool tensor" where
  "nopeak seq_length =
     bindE (ones [1, int seq_length, int seq_length]) (\<lambda>one_t.
     bindE (triu one_t 1) (\<lambda>u.
     Inr (to_bool (rsub_scalar 1 u))))"

text \<open>
  The mask element that \<^verbatim>\<open>masked_fill\<close> reads for the score at the index \<open>idx\<close>, and
  whether the query row \<open>row\<close> (batch, head, query position) of an attention with
  \<open>k_len\<close> keys has a key that the mask leaves attendable.
\<close>

definition mask_entry :: "bool tensor \<Rightarrow> nat list \<Rightarrow> bool" where
  "mask_entry m idx = elem m (broadcast_index (shape m) idx)"

definition row_has_valid_key :: "bool tensor \<Rightarrow> nat list \<Rightarrow> nat \<Rightarrow> bool" where
  "row_has_valid_key m row k_len = list_ex (\<lambda>j. mask_entry m (row @ [j])) [0..<k_len]"

definition create_mask :: "int tensor \<Rightarrow> int tensor \<Rightarrow> error + (bool tensor \<times> bool tensor)" where
  "create_mask src tgt =
     bindE (unsqueeze 1 (ne_scalar src 0)) (\<lambda>s1.
     bindE (unsqueeze 2 s1) (\<lambda>src_mask.
     bindE (unsqueeze 1 (ne_scalar tgt 0)) (\<lambda>t1.
     bindE (unsqueeze 2 t1) (\<lambda>tgt_pad.
     bindE (size_dim tgt 1) (\<lambda>seq_length.
     bindE (nopeak seq_length) (\<lambda>nopeak_mask.
     bindE (logical_and tgt_pad nopeak_mask) (\<lambda>tgt_mask.
     Inr (src_mask, tgt_mask))))))))"


section \<open>Python scalar arithmetic\<close>

definition py_mod :: "int \<Rightarrow> int \<Rightarrow> error + int" where
  "py_mod a b = (if b = 0 then Inl ZeroDivisionError else Inr (a mod b))"

definition py_floordiv :: "int \<Rightarrow> int \<Rightarrow> error + int" where
  "py_floordiv a b = (if b = 0 then Inl ZeroDivisionError else Inr (a div b))"

text \<open>A float divided by an int, as in \<^verbatim>\<open>-math.log(10000.0) / d_model\<close>.\<close>

definition py_truediv :: "real \<Rightarrow> int \<Rightarrow> error + real" where
  "py_truediv a b = (if b = 0 then Inl ZeroDivisionError else Inr (a / real_of_int b))"

definition math_sqrt :: "real \<Rightarrow> error + real" where
  "math_sqrt x = (if x < 0 then Inl ValueError else Inr (sqrt x))"

section \<open>PositionalEncoding\<close>

text \<open>
  \<^verbatim>\<open>torch.arange(start, end, step)\<close> as a float tensor. Its size is an argument, so it is
  allocated.
\<close>

definition arange :: "nat \<Rightarrow> int \<Rightarrow> int \<Rightarrow> int \<Rightarrow> error + fl tensor" where
  "arange mem start end step =
     (if step = 0 then Inl RuntimeError
      else if (0 < step \<and> end < start) \<or> (step < 0 \<and> start < end) then Inl RuntimeError
      else if \<not> allocates mem (nat (- ((start - end) div step))) then Inl RuntimeError
      else Inr \<lparr>shape = [nat (- ((start - end) div step))],
                elem = (\<lambda>idx. Fin (real_of_int (start + int (idx ! 0) * step)))\<rparr>)"

definition mul_scalar :: "fl tensor \<Rightarrow> real \<Rightarrow> fl tensor" where
  "mul_scalar t c = tmap (\<lambda>x. fl_mul x (Fin c)) t"

definition div_scalar :: "fl tensor \<Rightarrow> real \<Rightarrow> fl tensor" where
  "div_scalar t c = tmap (\<lambda>x. fl_div x (Fin c)) t"

text \<open>The number of positions selected by the slice \<^verbatim>\<open>start::step\<close> of a dimension of size \<open>n\<close>.\<close>

definition slice_len :: "nat \<Rightarrow> nat \<Rightarrow> nat \<Rightarrow> nat" where
  "slice_len n start step = (if n \<le> start then 0 else (n - start + step - 1) div step)"

text \<open>
  A tensor of shape \<open>src\<close> can be expanded to the shape \<open>tgt\<close> when, aligned at the last
  dimension, each of its sizes equals the target's or is 1.
\<close>

definition expandable :: "nat list \<Rightarrow> nat list \<Rightarrow> bool" where
  "expandable src tgt =
     (length src \<le> length tgt \<and>
      list_all2 (\<lambda>s t. s = t \<or> s = 1) src (drop (length tgt - length src) tgt))"

text \<open>
  The assignment \<^verbatim>\<open>t[:, start::step] = v\<close>. The value is copied into the selected columns;
  when its shape differs from the destination's, its leading dimensions of size 1 are
  dropped and the rest is expanded to the destination, which raises when it cannot be.
  The step is positive; the source uses 2.
\<close>

definition setitem_cols :: "fl tensor \<Rightarrow> nat \<Rightarrow> nat \<Rightarrow> fl tensor \<Rightarrow> error + fl tensor" where
  "setitem_cols t start step v =
     (if rank t < 2 then Inl IndexError
      else
        let dst = (shape t)[1 := slice_len (shape t ! 1) start step];
            vsh = (if shape v = dst then shape v else dropWhile (\<lambda>d. d = 1) (shape v));
            lead = length (shape v) - length vsh
        in if \<not> expandable vsh dst then Inl RuntimeError
           else Inr \<lparr>shape = shape t,
                     elem = (\<lambda>idx.
                       let c = idx ! 1
                       in if start \<le> c \<and> (c - start) mod step = 0
                          then elem v (replicate lead 0 @
                                 broadcast_index vsh (idx[1 := (c - start) div step]))
                          else elem t idx)\<rparr>)"

text \<open>
  \<^verbatim>\<open>
  class PositionalEncoding(nn.Module):
      def __init__(self, d_model: int, max_seq_length: int = 5000):
          pe = torch.zeros(max_seq_length, d_model)
          position = torch.arange(0, max_seq_length, dtype=torch.float).unsqueeze(1)
          div_term = torch.exp(
              torch.arange(0, d_model, 2).float() * (-math.log(10000.0) / d_model))
          pe[:, 0::2] = torch.sin(position * div_term)
          pe[:, 1::2] = torch.cos(position * div_term)
          pe = pe.unsqueeze(0)
          self.register_buffer("pe", pe)

      def forward(self, x):
          return x + self.pe[:, : x.size(1)]
  \<close>
  The constructor is split at the two assignments: \<open>pe_sin\<close> runs up to and including the
  sine assignment and returns the table with \<open>position\<close> and \<open>div_term\<close>; \<open>pe_table\<close> adds the
  cosine assignment.
\<close>

definition pe_sin :: "nat \<Rightarrow> int \<Rightarrow> int \<Rightarrow> error + (fl tensor \<times> fl tensor \<times> fl tensor)" where
  "pe_sin mem d_model max_seq_length =
     bindE (zeros mem [max_seq_length, d_model]) (\<lambda>pe.
     bindE (arange mem 0 max_seq_length 1) (\<lambda>ar.
     bindE (unsqueeze 1 ar) (\<lambda>position.
     bindE (arange mem 0 d_model 2) (\<lambda>evens.
     bindE (py_truediv (- ln 10000) d_model) (\<lambda>c.
     let div_term = tmap fl_exp (mul_scalar evens c) in
     bindE (broadcast_op fl_mul position div_term) (\<lambda>angle.
     bindE (setitem_cols pe 0 2 (tmap fl_sin angle)) (\<lambda>pe.
     Inr (pe, position, div_term))))))))"

definition pe_table :: "nat \<Rightarrow> int \<Rightarrow> int \<Rightarrow> error + fl tensor" where
  "pe_table mem d_model max_seq_length =
     bindE (pe_sin mem d_model max_seq_length) (\<lambda>(pe, position, div_term).
     bindE (broadcast_op fl_mul position div_term) (\<lambda>angle.
     setitem_cols pe 1 2 (tmap fl_cos angle)))"

record positional_encoding =
  pe :: "fl tensor"

definition PositionalEncoding_init :: "nat \<Rightarrow> int \<Rightarrow> int \<Rightarrow> error + positional_encoding" where
  "PositionalEncoding_init mem d_model max_seq_length =
     bindE (pe_table mem d_model max_seq_length) (\<lambda>table.
     bindE (unsqueeze 0 table) (\<lambda>buf.
     Inr \<lparr>pe = buf\<rparr>))"

text \<open>The slice \<^verbatim>\<open>t[:, :n]\<close>: the second dimension is cut to at most \<open>n\<close> positions.\<close>

definition slice_dim1_to :: "'a tensor \<Rightarrow> nat \<Rightarrow> error + 'a tensor" where
  "slice_dim1_to t n =
     (if rank t < 2 then Inl IndexError
      else Inr \<lparr>shape = (shape t)[1 := min n (shape t ! 1)], elem = elem t\<rparr>)"

definition tensor_add :: "fl tensor \<Rightarrow> fl tensor \<Rightarrow> error + fl tensor" where
  "tensor_add a b = broadcast_op fl_add a b"

definition PositionalEncoding_forward :: "positional_encoding \<Rightarrow> fl tensor \<Rightarrow> error + fl tensor" where
  "PositionalEncoding_forward P x =
     bindE (size_dim x 1) (\<lambda>n.
     bindE (slice_dim1_to (pe P) n) (\<lambda>looked_up.
     tensor_add x looked_up))"

section \<open>MultiHeadAttention\<close>

text \<open>
  A linear layer holds its weight (\<open>weight o i\<close>, output row \<open>o\<close>, input column \<open>i\<close>) and
  its bias. Parameters are real numbers. \<^verbatim>\<open>nn.Linear\<close> draws them at random; the
  constructor of the model receives the drawn values. It raises when a size is negative
  or when the weight (\<open>out_features \<times> in_features\<close> elements) or the bias cannot be
  allocated.
\<close>

record linear =
  in_features :: nat
  out_features :: nat
  weight :: "nat \<Rightarrow> nat \<Rightarrow> real"
  bias :: "nat \<Rightarrow> real"

type_synonym linear_init = "(nat \<Rightarrow> nat \<Rightarrow> real) \<times> (nat \<Rightarrow> real)"

definition nn_Linear :: "nat \<Rightarrow> int \<Rightarrow> int \<Rightarrow> linear_init \<Rightarrow> error + linear" where
  "nn_Linear mem n_in n_out init =
     (if n_in < 0 \<or> n_out < 0 then Inl RuntimeError
      else if \<not> allocates mem (nat n_out * nat n_in) \<or> \<not> allocates mem (nat n_out) then Inl RuntimeError
      else Inr \<lparr>in_features = nat n_in, out_features = nat n_out,
                weight = fst init, bias = snd init\<rparr>)"

text \<open>\<^verbatim>\<open>nn.Dropout(p)\<close> raises unless \<open>0 \<le> p \<le> 1\<close>.\<close>

definition nn_Dropout :: "real \<Rightarrow> error + real" where
  "nn_Dropout p = (if p < 0 \<or> 1 < p then Inl ValueError else Inr p)"

record multi_head_attention =
  mha_d_model :: int
  mha_num_heads :: int
  mha_d_k :: int
  W_q :: linear
  W_k :: linear
  W_v :: linear
  W_o :: linear
  attn_dropout :: real

text \<open>
  \<^verbatim>\<open>
  def __init__(self, d_model: int, num_heads: int, dropout: float = 0.1):
      super().__init__()
      assert d_model % num_heads == 0, "d_model must be divisible by num_heads"
      self.d_model = d_model
      self.num_heads = num_heads
      self.d_k = d_model // num_heads
      self.W_q = nn.Linear(d_model, d_model)
      self.W_k = nn.Linear(d_model, d_model)
      self.W_v = nn.Linear(d_model, d_model)
      self.W_o = nn.Linear(d_model, d_model)
      self.dropout = nn.Dropout(dropout)
  \<close>
\<close>

definition MultiHeadAttention_init ::
  "nat \<Rightarrow> int \<Rightarrow> int \<Rightarrow> real \<Rightarrow> linear_init \<Rightarrow> linear_init \<Rightarrow> linear_init \<Rightarrow> linear_init
     \<Rightarrow> error + multi_head_attention" where
  "MultiHeadAttention_init mem d_model num_heads dropout iq ik iv io =
     bindE (py_mod d_model num_heads) (\<lambda>r.
     if r \<noteq> 0 then Inl AssertionError
     else
     bindE (py_floordiv d_model num_heads) (\<lambda>dk.
     bindE (nn_Linear mem d_model d_model iq) (\<lambda>wq.
     bindE (nn_Linear mem d_model d_model ik) (\<lambda>wk.
     bindE (nn_Linear mem d_model d_model iv) (\<lambda>wv.
     bindE (nn_Linear mem d_model d_model io) (\<lambda>wo.
     bindE (nn_Dropout dropout) (\<lambda>p.
     Inr \<lparr>mha_d_model = d_model, mha_num_heads = num_heads, mha_d_k = dk,
          W_q = wq, W_k = wk, W_v = wv, W_o = wo, attn_dropout = p\<rparr>)))))))"

subsection \<open>Tensor operations of the attention\<close>

definition swap :: "nat \<Rightarrow> nat \<Rightarrow> 'a list \<Rightarrow> 'a list" where
  "swap i j xs = xs[i := xs ! j, j := xs ! i]"

definition transpose_dims :: "int \<Rightarrow> int \<Rightarrow> 'a tensor \<Rightarrow> error + 'a tensor" where
  "transpose_dims d0 d1 t =
     bindE (wrap_dim d0 (rank t)) (\<lambda>i.
     bindE (wrap_dim d1 (rank t)) (\<lambda>j.
     Inr \<lparr>shape = swap i j (shape t), elem = (\<lambda>idx. elem t (swap i j idx))\<rparr>))"

text \<open>
  \<^verbatim>\<open>torch.matmul\<close>: a batched matrix product over the last two dimensions, the leading
  dimensions broadcast. An operand of one dimension is a row vector on the left and a
  column vector on the right, and the added dimension is removed from the result.
\<close>

definition matmul :: "fl tensor \<Rightarrow> fl tensor \<Rightarrow> error + fl tensor" where
  "matmul a b =
     (if rank a = 0 \<or> rank b = 0 then Inl RuntimeError
      else
        let va = (rank a = 1); vb = (rank b = 1);
            sa = (if va then 1 # shape a else shape a);
            sb = (if vb then shape b @ [1] else shape b);
            ea = (if va then (\<lambda>idx. elem a (tl idx)) else elem a);
            eb = (if vb then (\<lambda>idx. elem b (butlast idx)) else elem b);
            ba = take (length sa - 2) sa; bb = take (length sb - 2) sb;
            n = sa ! (length sa - 2); m = sa ! (length sa - 1);
            m' = sb ! (length sb - 2); p = sb ! (length sb - 1)
        in if m \<noteq> m' then Inl RuntimeError
           else case broadcast_shapes ba bb of
             None \<Rightarrow> Inl RuntimeError
           | Some batch \<Rightarrow>
               Inr \<lparr>shape = batch @ (if va then [] else [n]) @ (if vb then [] else [p]),
                    elem = (\<lambda>idx.
                      let k = length batch;
                          bi = take k idx;
                          i = (if va then 0 else idx ! k);
                          j = (if vb then 0 else idx ! (length idx - 1))
                      in fl_sum (map (\<lambda>c. fl_mul (ea (broadcast_index ba bi @ [i, c]))
                                               (eb (broadcast_index bb bi @ [c, j])))
                                   [0..<m]))\<rparr>)"

text \<open>\<^verbatim>\<open>t.masked_fill(m, v)\<close>: both operands are broadcast to their common shape.\<close>

definition masked_fill :: "fl tensor \<Rightarrow> bool tensor \<Rightarrow> fl \<Rightarrow> error + fl tensor" where
  "masked_fill t m v = broadcast_op (\<lambda>x c. if c then v else x) t m"

text \<open>\<^verbatim>\<open>mask == 0\<close> on a boolean mask.\<close>

definition eq_zero :: "bool tensor \<Rightarrow> bool tensor" where
  "eq_zero m = tmap (\<lambda>c. \<not> c) m"

text \<open>
  \<^verbatim>\<open>torch.softmax(t, dim=-1)\<close>: each row along the last dimension is shifted by its
  maximum, exponentiated and divided by its sum. A tensor without dimensions is a row of
  one element.
\<close>

definition fl_max_list :: "fl list \<Rightarrow> fl" where
  "fl_max_list xs = foldr fl_max xs NegInf"

definition softmax_row :: "fl list \<Rightarrow> fl \<Rightarrow> fl" where
  "softmax_row row x =
     (let m = fl_max_list row
      in fl_div (fl_exp (fl_sub x m)) (fl_sum (map (\<lambda>y. fl_exp (fl_sub y m)) row)))"

definition row_of :: "'a tensor \<Rightarrow> nat list \<Rightarrow> 'a list" where
  "row_of t idx =
     (if rank t = 0 then [elem t idx]
      else map (\<lambda>k. elem t (butlast idx @ [k])) [0..<last (shape t)])"

definition softmax :: "fl tensor \<Rightarrow> fl tensor" where
  "softmax t = \<lparr>shape = shape t, elem = (\<lambda>idx. softmax_row (row_of t idx) (elem t idx))\<rparr>"

text \<open>
  Dropout. In evaluation mode it is the identity. In training mode each element is kept
  or zeroed by a random draw and the kept ones are scaled by \<open>1 / (1 - p)\<close>; the draw is
  the argument \<open>keep\<close>. With \<open>p = 0\<close> the input is returned, with \<open>p = 1\<close> it is multiplied
  by zero.
\<close>

datatype mode = Train | Eval

type_synonym draw = "nat list \<Rightarrow> bool"

definition dropout_scale :: "real \<Rightarrow> bool \<Rightarrow> real" where
  "dropout_scale p kept = (if p = 1 then 0 else if kept then 1 / (1 - p) else 0)"

definition dropout_value :: "real \<Rightarrow> mode \<Rightarrow> bool \<Rightarrow> fl \<Rightarrow> fl" where
  "dropout_value p md kept x =
     (if md = Eval \<or> p = 0 then x else fl_mul x (Fin (dropout_scale p kept)))"

definition dropout :: "real \<Rightarrow> mode \<Rightarrow> draw \<Rightarrow> fl tensor \<Rightarrow> fl tensor" where
  "dropout p md keep t =
     \<lparr>shape = shape t, elem = (\<lambda>idx. dropout_value p md (keep idx) (elem t idx))\<rparr>"

text \<open>
  \<^verbatim>\<open>
  def scaled_dot_product_attention(self, Q, K, V, mask=None):
      scores = torch.matmul(Q, K.transpose(-2, -1)) / math.sqrt(self.d_k)
      if mask is not None:
          scores = scores.masked_fill(mask == 0, float("-inf"))
      attention_weights = torch.softmax(scores, dim=-1)
      attention_weights = self.dropout(attention_weights)
      return torch.matmul(attention_weights, V)
  \<close>
  \<open>attention_scores\<close> is the first line, \<open>attention_weights\<close> the masking and the softmax.
\<close>

definition attention_scores :: "int \<Rightarrow> fl tensor \<Rightarrow> fl tensor \<Rightarrow> error + fl tensor" where
  "attention_scores dk Q K =
     bindE (transpose_dims (-2) (-1) K) (\<lambda>Kt.
     bindE (matmul Q Kt) (\<lambda>qk.
     bindE (math_sqrt (real_of_int dk)) (\<lambda>s.
     Inr (div_scalar qk s))))"

definition attention_weights :: "fl tensor \<Rightarrow> bool tensor option \<Rightarrow> error + fl tensor" where
  "attention_weights scores msk =
     bindE (case msk of None \<Rightarrow> Inr scores
            | Some m \<Rightarrow> masked_fill scores (eq_zero m) NegInf) (\<lambda>scores.
     Inr (softmax scores))"

definition scaled_dot_product_attention ::
  "multi_head_attention \<Rightarrow> mode \<Rightarrow> draw \<Rightarrow> fl tensor \<Rightarrow> fl tensor \<Rightarrow> fl tensor
     \<Rightarrow> bool tensor option \<Rightarrow> error + fl tensor" where
  "scaled_dot_product_attention self md keep Q K V msk =
     bindE (attention_scores (mha_d_k self) Q K) (\<lambda>scores.
     bindE (attention_weights scores msk) (\<lambda>weights.
     let weights = dropout (attn_dropout self) md keep weights
     in matmul weights V))"

subsection \<open>The attention as the specification words it\<close>

text \<open>
  The specification describes the attention entry by entry: the score of query \<open>i\<close> and
  key \<open>j\<close> is the dot product of their vectors over \<open>sqrt d_k\<close>, or minus infinity where
  the mask (broadcast to the scores) is 0; the weights are the softmax of each score row,
  with dropout applied to them; the output is the weighted sum of the value vectors.
\<close>

definition spec_score ::
  "nat \<Rightarrow> fl tensor \<Rightarrow> fl tensor \<Rightarrow> bool tensor option \<Rightarrow> nat \<Rightarrow> nat \<Rightarrow> nat \<Rightarrow> nat \<Rightarrow> fl" where
  "spec_score dk Q K msk b h i j =
     (if (case msk of None \<Rightarrow> False | Some m \<Rightarrow> \<not> mask_entry m [b, h, i, j]) then NegInf
      else fl_div (fl_sum (map (\<lambda>c. fl_mul (elem Q [b, h, i, c]) (elem K [b, h, j, c])) [0..<dk]))
                  (Fin (sqrt (real dk))))"

definition spec_weight ::
  "real \<Rightarrow> mode \<Rightarrow> draw \<Rightarrow> nat \<Rightarrow> nat \<Rightarrow> fl tensor \<Rightarrow> fl tensor \<Rightarrow> bool tensor option
     \<Rightarrow> nat \<Rightarrow> nat \<Rightarrow> nat \<Rightarrow> nat \<Rightarrow> fl" where
  "spec_weight p md keep dk k_len Q K msk b h i j =
     dropout_value p md (keep [b, h, i, j])
       (softmax_row (map (spec_score dk Q K msk b h i) [0..<k_len]) (spec_score dk Q K msk b h i j))"

definition spec_attention ::
  "real \<Rightarrow> mode \<Rightarrow> draw \<Rightarrow> nat \<Rightarrow> nat \<Rightarrow> fl tensor \<Rightarrow> fl tensor \<Rightarrow> fl tensor
     \<Rightarrow> bool tensor option \<Rightarrow> nat \<Rightarrow> nat \<Rightarrow> nat \<Rightarrow> nat \<Rightarrow> fl" where
  "spec_attention p md keep dk k_len Q K V msk b h i c =
     fl_sum (map (\<lambda>j. fl_mul (spec_weight p md keep dk k_len Q K msk b h i j) (elem V [b, h, j, c]))
                 [0..<k_len])"

section \<open>Linear layers, reshaping and the attention module\<close>

text \<open>\<^verbatim>\<open>nn.Linear.forward\<close>: \<open>x W\<^sup>T + b\<close> over the last dimension.\<close>

definition linear_row :: "linear \<Rightarrow> fl list \<Rightarrow> nat \<Rightarrow> fl" where
  "linear_row l row k =
     fl_add (fl_sum (map (\<lambda>c. fl_mul (row ! c) (Fin (weight l k c))) [0..<length row]))
            (Fin (bias l k))"

definition linear_forward :: "linear \<Rightarrow> fl tensor \<Rightarrow> error + fl tensor" where
  "linear_forward l x =
     (if rank x = 0 \<or> last (shape x) \<noteq> in_features l then Inl RuntimeError
      else Inr \<lparr>shape = butlast (shape x) @ [out_features l],
                elem = (\<lambda>idx. linear_row l (row_of x idx) (last idx))\<rparr>)"

text \<open>
  \<^verbatim>\<open>t.view(sizes)\<close> on a contiguous tensor: the elements keep their row-major order.
  One size may be \<open>-1\<close> and is then inferred from the number of elements; that raises
  when the other sizes multiply to 0 or do not divide the number of elements.
\<close>

fun flat_index :: "nat list \<Rightarrow> nat list \<Rightarrow> nat" where
  "flat_index (d # ds) (i # is) = i * prod_list ds + flat_index ds is"
| "flat_index ds is = 0"

fun unflat_index :: "nat list \<Rightarrow> nat \<Rightarrow> nat list" where
  "unflat_index [] n = []"
| "unflat_index (d # ds) n = (n div prod_list ds) # unflat_index ds (n mod prod_list ds)"

definition infer_size :: "int list \<Rightarrow> nat \<Rightarrow> error + nat list" where
  "infer_size sizes n =
     (if (\<exists>s \<in> set sizes. s < - 1) \<or> 1 < length (filter (\<lambda>s. s = - 1) sizes) then Inl RuntimeError
      else
        let known = prod_list (map nat (filter (\<lambda>s. s \<noteq> - 1) sizes))
        in if - 1 \<in> set sizes
           then (if 0 < known \<and> n mod known = 0
                 then Inr (map (\<lambda>s. if s = - 1 then n div known else nat s) sizes)
                 else Inl RuntimeError)
           else (if known = n then Inr (map nat sizes) else Inl RuntimeError))"

definition view :: "int list \<Rightarrow> 'a tensor \<Rightarrow> error + 'a tensor" where
  "view sizes t =
     bindE (infer_size sizes (prod_list (shape t))) (\<lambda>sh.
     Inr \<lparr>shape = sh, elem = (\<lambda>idx. elem t (unflat_index (shape t) (flat_index sh idx)))\<rparr>)"

text \<open>
  \<^verbatim>\<open>
  def forward(self, query, key, value, mask=None):
      batch_size = query.size(0)
      Q = self.W_q(query).view(batch_size, -1, self.num_heads, self.d_k).transpose(1, 2)
      K = self.W_k(key).view(batch_size, -1, self.num_heads, self.d_k).transpose(1, 2)
      V = self.W_v(value).view(batch_size, -1, self.num_heads, self.d_k).transpose(1, 2)
      x = self.scaled_dot_product_attention(Q, K, V, mask)
      x = x.transpose(1, 2).contiguous().view(batch_size, -1, self.d_model)
      return self.W_o(x)
  \<close>
  \<^verbatim>\<open>contiguous()\<close> changes the memory layout only and is the identity here.
\<close>

definition split_heads :: "multi_head_attention \<Rightarrow> nat \<Rightarrow> linear \<Rightarrow> fl tensor \<Rightarrow> error + fl tensor" where
  "split_heads self batch_size W x =
     bindE (linear_forward W x) (\<lambda>y.
     bindE (view [int batch_size, - 1, mha_num_heads self, mha_d_k self] y) (\<lambda>y.
     transpose_dims 1 2 y))"

definition MultiHeadAttention_forward ::
  "multi_head_attention \<Rightarrow> mode \<Rightarrow> draw \<Rightarrow> fl tensor \<Rightarrow> fl tensor \<Rightarrow> fl tensor
     \<Rightarrow> bool tensor option \<Rightarrow> error + fl tensor" where
  "MultiHeadAttention_forward self md keep query key value msk =
     bindE (size_dim query 0) (\<lambda>batch_size.
     bindE (split_heads self batch_size (W_q self) query) (\<lambda>Q.
     bindE (split_heads self batch_size (W_k self) key) (\<lambda>K.
     bindE (split_heads self batch_size (W_v self) value) (\<lambda>V.
     bindE (scaled_dot_product_attention self md keep Q K V msk) (\<lambda>x.
     bindE (transpose_dims 1 2 x) (\<lambda>x.
     bindE (view [int batch_size, - 1, mha_d_model self] x) (\<lambda>x.
     linear_forward (W_o self) x)))))))"

section \<open>FeedForward and LayerNorm\<close>

fun fl_relu :: "fl \<Rightarrow> fl" where
  "fl_relu (Fin a) = Fin (max 0 a)"
| "fl_relu PosInf = PosInf"
| "fl_relu NegInf = Fin 0"
| "fl_relu NaN = NaN"

fun fl_sqrt :: "fl \<Rightarrow> fl" where
  "fl_sqrt (Fin a) = (if a < 0 then NaN else Fin (sqrt a))"
| "fl_sqrt PosInf = PosInf"
| "fl_sqrt NegInf = NaN"
| "fl_sqrt NaN = NaN"

record feed_forward =
  ff_linear1 :: linear
  ff_linear2 :: linear
  ff_dropout :: real

text \<open>
  \<^verbatim>\<open>
  class FeedForward(nn.Module):
      def __init__(self, d_model: int, d_ff: int, dropout: float = 0.1):
          self.linear1 = nn.Linear(d_model, d_ff)
          self.linear2 = nn.Linear(d_ff, d_model)
          self.dropout = nn.Dropout(dropout)
          self.relu = nn.ReLU()
      def forward(self, x):
          return self.linear2(self.dropout(self.relu(self.linear1(x))))
  \<close>
\<close>

definition FeedForward_init ::
  "nat \<Rightarrow> int \<Rightarrow> int \<Rightarrow> real \<Rightarrow> linear_init \<Rightarrow> linear_init \<Rightarrow> error + feed_forward" where
  "FeedForward_init mem d_model d_ff dropout_p i1 i2 =
     bindE (nn_Linear mem d_model d_ff i1) (\<lambda>l1.
     bindE (nn_Linear mem d_ff d_model i2) (\<lambda>l2.
     bindE (nn_Dropout dropout_p) (\<lambda>p.
     Inr \<lparr>ff_linear1 = l1, ff_linear2 = l2, ff_dropout = p\<rparr>)))"

definition FeedForward_forward :: "feed_forward \<Rightarrow> mode \<Rightarrow> draw \<Rightarrow> fl tensor \<Rightarrow> error + fl tensor" where
  "FeedForward_forward self md keep x =
     bindE (linear_forward (ff_linear1 self) x) (\<lambda>h.
     linear_forward (ff_linear2 self) (dropout (ff_dropout self) md keep (tmap fl_relu h)))"

text \<open>
  \<^verbatim>\<open>nn.LayerNorm(d_model)\<close> normalises over the last dimension with the biased variance
  and \<open>eps = 1e-5\<close>, then scales and shifts by its parameters. The constructor of the model
  receives the values of the parameters (ones and zeros when built, other values after
  training) and raises when the size is negative or the parameters cannot be allocated.
\<close>

record layer_norm =
  normalized_size :: nat
  ln_weight :: "nat \<Rightarrow> real"
  ln_bias :: "nat \<Rightarrow> real"

type_synonym norm_init = "(nat \<Rightarrow> real) \<times> (nat \<Rightarrow> real)"

definition nn_LayerNorm :: "nat \<Rightarrow> int \<Rightarrow> norm_init \<Rightarrow> error + layer_norm" where
  "nn_LayerNorm mem n init =
     (if n < 0 \<or> \<not> allocates mem (nat n) then Inl RuntimeError
      else Inr \<lparr>normalized_size = nat n, ln_weight = fst init, ln_bias = snd init\<rparr>)"

definition layer_norm_eps :: real where
  "layer_norm_eps = 1 / 100000"

definition layer_norm_row :: "layer_norm \<Rightarrow> fl list \<Rightarrow> nat \<Rightarrow> fl" where
  "layer_norm_row self row k =
     (let n = Fin (real (length row));
          mean = fl_div (fl_sum row) n;
          var = fl_div (fl_sum (map (\<lambda>v. fl_mul (fl_sub v mean) (fl_sub v mean)) row)) n
      in fl_add (fl_mul (fl_div (fl_sub (row ! k) mean) (fl_sqrt (fl_add var (Fin layer_norm_eps))))
                        (Fin (ln_weight self k)))
                (Fin (ln_bias self k)))"

definition LayerNorm_forward :: "layer_norm \<Rightarrow> fl tensor \<Rightarrow> error + fl tensor" where
  "LayerNorm_forward self x =
     (if rank x = 0 \<or> last (shape x) \<noteq> normalized_size self then Inl RuntimeError
      else Inr \<lparr>shape = shape x,
                elem = (\<lambda>idx. layer_norm_row self (row_of x idx) (last idx))\<rparr>)"

section \<open>EncoderLayer and DecoderLayer\<close>

record encoder_layer =
  enc_self_attention :: multi_head_attention
  enc_feed_forward :: feed_forward
  enc_norm1 :: layer_norm
  enc_norm2 :: layer_norm
  enc_dropout :: real

text \<open>The parameter values an encoder layer is built with.\<close>

record encoder_layer_init =
  ei_q :: linear_init
  ei_k :: linear_init
  ei_v :: linear_init
  ei_o :: linear_init
  ei_ff1 :: linear_init
  ei_ff2 :: linear_init
  ei_norm1 :: norm_init
  ei_norm2 :: norm_init

text \<open>The dropout draws of one call of an encoder layer, one per dropout site.\<close>

record encoder_draws =
  ed_attention :: draw
  ed_residual1 :: draw
  ed_feed_forward :: draw
  ed_residual2 :: draw

text \<open>
  \<^verbatim>\<open>
  class EncoderLayer(nn.Module):
      def __init__(self, d_model: int, num_heads: int, d_ff: int, dropout: float = 0.1):
          self.self_attention = MultiHeadAttention(d_model, num_heads, dropout)
          self.feed_forward = FeedForward(d_model, d_ff, dropout)
          self.norm1 = nn.LayerNorm(d_model)
          self.norm2 = nn.LayerNorm(d_model)
          self.dropout = nn.Dropout(dropout)
      def forward(self, x, mask=None):
          attn_output = self.self_attention(x, x, x, mask)
          x = self.norm1(x + self.dropout(attn_output))
          ff_output = self.feed_forward(x)
          x = self.norm2(x + self.dropout(ff_output))
          return x
  \<close>
\<close>

definition EncoderLayer_init ::
  "nat \<Rightarrow> int \<Rightarrow> int \<Rightarrow> int \<Rightarrow> real \<Rightarrow> encoder_layer_init \<Rightarrow> error + encoder_layer" where
  "EncoderLayer_init mem d_model num_heads d_ff dropout_p init =
     bindE (MultiHeadAttention_init mem d_model num_heads dropout_p
              (ei_q init) (ei_k init) (ei_v init) (ei_o init)) (\<lambda>att.
     bindE (FeedForward_init mem d_model d_ff dropout_p (ei_ff1 init) (ei_ff2 init)) (\<lambda>ff.
     bindE (nn_LayerNorm mem d_model (ei_norm1 init)) (\<lambda>n1.
     bindE (nn_LayerNorm mem d_model (ei_norm2 init)) (\<lambda>n2.
     bindE (nn_Dropout dropout_p) (\<lambda>p.
     Inr \<lparr>enc_self_attention = att, enc_feed_forward = ff, enc_norm1 = n1, enc_norm2 = n2,
          enc_dropout = p\<rparr>)))))"

definition EncoderLayer_forward ::
  "encoder_layer \<Rightarrow> mode \<Rightarrow> encoder_draws \<Rightarrow> fl tensor \<Rightarrow> bool tensor option
     \<Rightarrow> error + fl tensor" where
  "EncoderLayer_forward self md dr x msk =
     bindE (MultiHeadAttention_forward (enc_self_attention self) md (ed_attention dr) x x x msk)
       (\<lambda>attn_output.
     bindE (tensor_add x (dropout (enc_dropout self) md (ed_residual1 dr) attn_output)) (\<lambda>r1.
     bindE (LayerNorm_forward (enc_norm1 self) r1) (\<lambda>x.
     bindE (FeedForward_forward (enc_feed_forward self) md (ed_feed_forward dr) x) (\<lambda>ff_output.
     bindE (tensor_add x (dropout (enc_dropout self) md (ed_residual2 dr) ff_output)) (\<lambda>r2.
     LayerNorm_forward (enc_norm2 self) r2)))))"

record decoder_layer =
  dec_self_attention :: multi_head_attention
  dec_cross_attention :: multi_head_attention
  dec_feed_forward :: feed_forward
  dec_norm1 :: layer_norm
  dec_norm2 :: layer_norm
  dec_norm3 :: layer_norm
  dec_dropout :: real

record decoder_draws =
  dd_self_attention :: draw
  dd_residual1 :: draw
  dd_cross_attention :: draw
  dd_residual2 :: draw
  dd_feed_forward :: draw
  dd_residual3 :: draw

text \<open>
  \<^verbatim>\<open>
  def forward(self, x, enc_output, tgt_mask=None, src_mask=None):
      self_attn_output = self.self_attention(x, x, x, tgt_mask)
      x = self.norm1(x + self.dropout(self_attn_output))
      cross_attn_output = self.cross_attention(x, enc_output, enc_output, src_mask)
      x = self.norm2(x + self.dropout(cross_attn_output))
      ff_output = self.feed_forward(x)
      x = self.norm3(x + self.dropout(ff_output))
      return x
  \<close>
\<close>

definition DecoderLayer_forward ::
  "decoder_layer \<Rightarrow> mode \<Rightarrow> decoder_draws \<Rightarrow> fl tensor \<Rightarrow> fl tensor \<Rightarrow> bool tensor option
     \<Rightarrow> bool tensor option \<Rightarrow> error + fl tensor" where
  "DecoderLayer_forward self md dr x enc_output tgt_mask src_mask =
     bindE (MultiHeadAttention_forward (dec_self_attention self) md (dd_self_attention dr)
              x x x tgt_mask) (\<lambda>self_attn_output.
     bindE (tensor_add x (dropout (dec_dropout self) md (dd_residual1 dr) self_attn_output)) (\<lambda>r1.
     bindE (LayerNorm_forward (dec_norm1 self) r1) (\<lambda>x.
     bindE (MultiHeadAttention_forward (dec_cross_attention self) md (dd_cross_attention dr)
              x enc_output enc_output src_mask) (\<lambda>cross_attn_output.
     bindE (tensor_add x (dropout (dec_dropout self) md (dd_residual2 dr) cross_attn_output)) (\<lambda>r2.
     bindE (LayerNorm_forward (dec_norm2 self) r2) (\<lambda>x.
     bindE (FeedForward_forward (dec_feed_forward self) md (dd_feed_forward dr) x) (\<lambda>ff_output.
     bindE (tensor_add x (dropout (dec_dropout self) md (dd_residual3 dr) ff_output)) (\<lambda>r3.
     LayerNorm_forward (dec_norm3 self) r3))))))))"

section \<open>Transformer.forward\<close>

text \<open>
  \<^verbatim>\<open>nn.Embedding\<close>: a table with one row per token index; the lookup raises when an index
  of the input is outside the table.
\<close>

record embedding =
  num_embeddings :: nat
  embedding_dim :: nat
  emb_table :: "nat \<Rightarrow> nat \<Rightarrow> real"

fun all_indices :: "nat list \<Rightarrow> nat list list" where
  "all_indices [] = [[]]"
| "all_indices (d # ds) = concat (map (\<lambda>i. map ((#) i) (all_indices ds)) [0..<d])"

definition embedding_forward :: "embedding \<Rightarrow> int tensor \<Rightarrow> error + fl tensor" where
  "embedding_forward e t =
     (if list_ex (\<lambda>idx. elem t idx < 0 \<or> int (num_embeddings e) \<le> elem t idx) (all_indices (shape t))
      then Inl IndexError
      else Inr \<lparr>shape = shape t @ [embedding_dim e],
                elem = (\<lambda>idx. Fin (emb_table e (nat (elem t (butlast idx))) (last idx)))\<rparr>)"

record transformer =
  tf_encoder_embedding :: embedding
  tf_decoder_embedding :: embedding
  tf_positional_encoding :: positional_encoding
  tf_encoder_layers :: "encoder_layer list"
  tf_decoder_layers :: "decoder_layer list"
  tf_final_layer :: linear
  tf_dropout :: real

text \<open>
  The dropout draws of one forward pass: one for each embedded input and, for the layer
  with number \<open>n\<close> of each stack, the draws of its call.
\<close>

record forward_draws =
  fd_src :: draw
  fd_encoder :: "nat \<Rightarrow> encoder_draws"
  fd_tgt :: draw
  fd_decoder :: "nat \<Rightarrow> decoder_draws"

text \<open>
  \<^verbatim>\<open>
  def forward(self, src, tgt):
      src_mask, tgt_mask = self.create_mask(src, tgt)
      src_embedded = self.dropout(self.positional_encoding(self.encoder_embedding(src)))
      enc_output = src_embedded
      for enc_layer in self.encoder_layers:
          enc_output = enc_layer(enc_output, src_mask)
      tgt_embedded = self.dropout(self.positional_encoding(self.decoder_embedding(tgt)))
      dec_output = tgt_embedded
      for dec_layer in self.decoder_layers:
          dec_output = dec_layer(dec_output, enc_output, tgt_mask, src_mask)
      output = self.final_layer(dec_output)
      return output
  \<close>
  The two loops are \<open>encoder_stack\<close> and \<open>decoder_stack\<close>, which count the layers for the
  draws. \<open>embed\<close> is the embedding, positional encoding and dropout of an input, and
  \<open>encoder_output\<close> the encoder side of \<open>forward\<close> for a given source mask.
\<close>

fun encoder_stack ::
  "encoder_layer list \<Rightarrow> mode \<Rightarrow> (nat \<Rightarrow> encoder_draws) \<Rightarrow> nat \<Rightarrow> fl tensor
     \<Rightarrow> bool tensor option \<Rightarrow> error + fl tensor" where
  "encoder_stack [] md dr n enc_output src_mask = Inr enc_output"
| "encoder_stack (enc_layer # layers) md dr n enc_output src_mask =
     bindE (EncoderLayer_forward enc_layer md (dr n) enc_output src_mask) (\<lambda>enc_output.
     encoder_stack layers md dr (Suc n) enc_output src_mask)"

fun decoder_stack ::
  "decoder_layer list \<Rightarrow> mode \<Rightarrow> (nat \<Rightarrow> decoder_draws) \<Rightarrow> nat \<Rightarrow> fl tensor \<Rightarrow> fl tensor
     \<Rightarrow> bool tensor option \<Rightarrow> bool tensor option \<Rightarrow> error + fl tensor" where
  "decoder_stack [] md dr n dec_output enc_output tgt_mask src_mask = Inr dec_output"
| "decoder_stack (dec_layer # layers) md dr n dec_output enc_output tgt_mask src_mask =
     bindE (DecoderLayer_forward dec_layer md (dr n) dec_output enc_output tgt_mask src_mask)
       (\<lambda>dec_output.
     decoder_stack layers md dr (Suc n) dec_output enc_output tgt_mask src_mask)"

definition embed ::
  "transformer \<Rightarrow> embedding \<Rightarrow> mode \<Rightarrow> draw \<Rightarrow> int tensor \<Rightarrow> error + fl tensor" where
  "embed self emb md keep tokens =
     bindE (embedding_forward emb tokens) (\<lambda>e.
     bindE (PositionalEncoding_forward (tf_positional_encoding self) e) (\<lambda>pos.
     Inr (dropout (tf_dropout self) md keep pos)))"

definition encoder_output ::
  "transformer \<Rightarrow> mode \<Rightarrow> forward_draws \<Rightarrow> int tensor \<Rightarrow> bool tensor option
     \<Rightarrow> error + fl tensor" where
  "encoder_output self md dr src src_mask =
     bindE (embed self (tf_encoder_embedding self) md (fd_src dr) src) (\<lambda>src_embedded.
     encoder_stack (tf_encoder_layers self) md (fd_encoder dr) 0 src_embedded src_mask)"

definition Transformer_forward ::
  "transformer \<Rightarrow> mode \<Rightarrow> forward_draws \<Rightarrow> int tensor \<Rightarrow> int tensor \<Rightarrow> error + fl tensor" where
  "Transformer_forward self md dr src tgt =
     bindE (create_mask src tgt) (\<lambda>(src_mask, tgt_mask).
     bindE (encoder_output self md dr src (Some src_mask)) (\<lambda>enc_output.
     bindE (embed self (tf_decoder_embedding self) md (fd_tgt dr) tgt) (\<lambda>tgt_embedded.
     bindE (decoder_stack (tf_decoder_layers self) md (fd_decoder dr) 0 tgt_embedded enc_output
              (Some tgt_mask) (Some src_mask)) (\<lambda>dec_output.
     linear_forward (tf_final_layer self) dec_output))))"

section \<open>Runs that differ at pad positions\<close>

text \<open>
  Two source batches with the same true lengths \<open>len b\<close> are compared. Two activations of
  shape \<open>[B, S, D]\<close> are \<open>related\<close> when, in every batch row that has a real token, all
  their elements are finite and they are equal at the real positions.
\<close>

fun is_fin :: "fl \<Rightarrow> bool" where
  "is_fin (Fin a) = True"
| "is_fin x = False"

definition related :: "(nat \<Rightarrow> nat) \<Rightarrow> nat \<Rightarrow> nat \<Rightarrow> nat \<Rightarrow> fl tensor \<Rightarrow> fl tensor \<Rightarrow> bool" where
  "related len B S D x x' =
     (shape x = [B, S, D] \<and> shape x' = [B, S, D] \<and>
      (\<forall>b<B. 0 < len b \<longrightarrow> (\<forall>s<S. \<forall>k<D.
         is_fin (elem x [b, s, k]) \<and> is_fin (elem x' [b, s, k]) \<and>
         (s < len b \<longrightarrow> elem x [b, s, k] = elem x' [b, s, k]))))"

section \<open>Auxiliary lemmas\<close>

lemma bindE_simps [simp]: "bindE (Inr x) f = f x" "bindE (Inl e) f = Inl e"
  by (simp_all add: bindE_def)

lemma allocates_mono: "allocates mem n \<Longrightarrow> m \<le> n \<Longrightarrow> allocates mem m"
  by (simp add: allocates_def)

lemma allocates_0: "allocates mem 0"
  by (simp add: allocates_def)

lemma zeros2:
  "0 \<le> a \<Longrightarrow> 0 \<le> b \<Longrightarrow> allocates mem (nat a * nat b) \<Longrightarrow>
     zeros mem [a, b] = Inr \<lparr>shape = [nat a, nat b], elem = (\<lambda>idx. Fin 0)\<rparr>"
  by (simp add: zeros_def full_def)

lemma zeros2_neg:
  "a < 0 \<or> b < 0 \<or> \<not> allocates mem (nat a * nat b) \<Longrightarrow> zeros mem [a, b] = Inl RuntimeError"
  by (auto simp add: zeros_def full_def)

lemma arange_up: "0 < step \<Longrightarrow> 0 \<le> n \<Longrightarrow> allocates mem (nat (- ((- n) div step))) \<Longrightarrow>
   arange mem 0 n step =
   Inr \<lparr>shape = [nat (- ((- n) div step))], elem = (\<lambda>idx. Fin (real_of_int (int (idx ! 0) * step)))\<rparr>"
  by (simp add: arange_def)

lemma arange_full: "0 < step \<Longrightarrow> 0 \<le> n \<Longrightarrow> \<not> allocates mem (nat (- ((- n) div step))) \<Longrightarrow>
   arange mem 0 n step = Inl RuntimeError"
  by (simp add: arange_def)

lemma unsqueeze_nat: "k \<le> length (shape t) \<Longrightarrow> unsqueeze (int k) t =
    Inr \<lparr>shape = take k (shape t) @ [1] @ drop k (shape t),
            elem = (\<lambda>idx. elem t (take k idx @ drop (Suc k) idx))\<rparr>"
  by (simp add: unsqueeze_def wrap_dim_def rank_def)

lemmas unsqueeze_0 = unsqueeze_nat[of 0, simplified]
lemmas unsqueeze_1 = unsqueeze_nat[of 1, simplified]
lemmas unsqueeze_2 = unsqueeze_nat[of 2, simplified]

lemma broadcast_col_row: "broadcast_shapes [n, Suc 0] [c] = Some [n, c]"
  by (auto simp: broadcast_shapes_def)

lemma angle_char:
  assumes "shape p = [n, 1]" "shape dv = [c]"
  shows "\<exists>a. broadcast_op fl_mul p dv = Inr a \<and> shape a = [n, c] \<and>
     (\<forall>pos i. pos < n \<longrightarrow> i < c \<longrightarrow> elem a [pos, i] = fl_mul (elem p [pos, 0]) (elem dv [i]))"
  using assms by (auto simp: broadcast_op_def broadcast_col_row broadcast_index_def)

lemma slice_len_bound:
  assumes "start \<le> col" "col < d" "0 < step"
  shows "(col - start) div step < slice_len d start step"
proof -
  define a where "a = d - start - 1"
  have sl: "slice_len d start step = (a + step) div step"
    using assms by (simp add: slice_len_def a_def)
  have "col - start \<le> a" using assms by (simp add: a_def)
  then have "(col - start) div step \<le> a div step" by (rule div_le_mono)
  also have "\<dots> < (a + step) div step" using assms by simp
  finally show ?thesis by (simp only: sl)
qed

lemma setitem_same:
  assumes "shape t = [n, d]" "shape v = [n, slice_len d start step]" "0 < step"
  shows "\<exists>r. setitem_cols t start step v = Inr r \<and> shape r = [n, d] \<and>
     (\<forall>pos col. pos < n \<longrightarrow> col < d \<longrightarrow> elem r [pos, col] =
        (if start \<le> col \<and> (col - start) mod step = 0 then elem v [pos, (col - start) div step]
         else elem t [pos, col]))"
proof -
  have ex: "expandable [n, slice_len d start step] [n, slice_len d start step]"
    by (simp add: expandable_def)
  have bi: "broadcast_index [n, slice_len d start step] [pos, (col - start) div step] = [pos, (col - start) div step]"
    if "pos < n" "start \<le> col" "col < d" for pos col
    using that slice_len_bound[OF that(2,3) assms(3)] by (auto simp: broadcast_index_def)
  show ?thesis
    using assms ex by (simp add: setitem_cols_def rank_def Let_def bi)
qed

lemma setitem_mismatch:
  assumes "shape t = [n, d]" "shape v = [n, c]" "c \<noteq> slice_len d start step" "c \<noteq> 1"
  shows "setitem_cols t start step v = Inl RuntimeError"
  using assms by (auto simp: setitem_cols_def rank_def Let_def expandable_def)

lemma setitem_empty:
  assumes "shape t = [n, d]" "shape v = [n, 1]" "d \<le> start"
  shows "\<exists>r. setitem_cols t start step v = Inr r \<and> shape r = [n, d] \<and>
     (\<forall>pos col. col < d \<longrightarrow> elem r [pos, col] = elem t [pos, col])"
  using assms by (auto simp: setitem_cols_def rank_def Let_def expandable_def slice_len_def)

lemma ceil_half:
  assumes "0 \<le> d"
  shows "nat (- ((- d) div 2)) = slice_len (nat d) 0 2"
proof -
  have "- ((- d) div 2) = (d + 1) div 2" by presburger
  moreover have "nat ((d + 1) div 2) = (nat d + 1) div 2"
    using assms by (simp add: nat_div_distrib nat_add_distrib)
  ultimately show ?thesis by (simp add: slice_len_def)
qed

lemma slice_len_half: "slice_len n 0 2 = (n + 1) div 2"
  by (simp add: slice_len_def)

lemma pe_sin_char:
  assumes "0 \<le> L" "0 < d" "allocates mem (nat L * nat d)" "allocates mem ((nat d + 1) div 2)"
  shows "\<exists>t p dv. pe_sin mem d L = Inr (t, p, dv) \<and> shape t = [nat L, nat d] \<and> shape p = [nat L, 1]
      \<and> shape dv = [slice_len (nat d) 0 2]
      \<and> (\<forall>pos. elem p [pos, 0] = Fin (real pos))
      \<and> (\<forall>i. elem dv [i] = Fin (exp (real (2 * i) * (- ln 10000 / real_of_int d))))
      \<and> (\<forall>pos c. pos < nat L \<longrightarrow> c < nat d \<longrightarrow> elem t [pos, c] =
            (if even c then Fin (sin (real pos * exp (real c * (- ln 10000 / real_of_int d)))) else Fin 0))"
proof -
  define z where "z = \<lparr>shape = [nat L, nat d], elem = (\<lambda>idx. Fin 0)\<rparr>"
  define p where "p = \<lparr>shape = [nat L, 1], elem = (\<lambda>idx. Fin (real ((take 1 idx @ drop 2 idx) ! 0)))\<rparr>"
  define dv where "dv = tmap fl_exp (mul_scalar \<lparr>shape = [slice_len (nat d) 0 2],
        elem = (\<lambda>idx. Fin (real_of_int (int (idx ! 0) * 2)))\<rparr> (- ln 10000 / real_of_int d))"
  have shp: "shape p = [nat L, 1]" and shdv: "shape dv = [slice_len (nat d) 0 2]" and shz: "shape z = [nat L, nat d]"
    by (simp_all add: p_def dv_def tmap_def mul_scalar_def z_def)
  have ep: "elem p [pos, 0] = Fin (real pos)" for pos by (simp add: p_def)
  have edv: "elem dv [i] = Fin (exp (real (2 * i) * (- ln 10000 / real_of_int d)))" for i
    by (simp add: dv_def tmap_def mul_scalar_def mult.commute)
  obtain a where a: "broadcast_op fl_mul p dv = Inr a" "shape a = [nat L, slice_len (nat d) 0 2]"
     "\<And>pos i. pos < nat L \<Longrightarrow> i < slice_len (nat d) 0 2 \<Longrightarrow> elem a [pos, i] = fl_mul (elem p [pos, 0]) (elem dv [i])"
    using angle_char[OF shp shdv] by blast
  have shs: "shape (tmap fl_sin a) = [nat L, slice_len (nat d) 0 2]" using a(2) by (simp add: tmap_def)
  obtain r where r: "setitem_cols z 0 2 (tmap fl_sin a) = Inr r" "shape r = [nat L, nat d]"
    "\<And>pos col. pos < nat L \<Longrightarrow> col < nat d \<Longrightarrow> elem r [pos, col] =
        (if 0 \<le> col \<and> (col - 0) mod 2 = 0 then elem (tmap fl_sin a) [pos, (col - 0) div 2]
         else elem z [pos, col])"
    using setitem_same[OF shz shs, of ] by (metis zero_less_numeral)
  have "nat L \<le> nat L * nat d" using assms(2) by (cases "nat d") simp_all
  then have al: "allocates mem (nat L)" using allocates_mono[OF assms(3)] by simp
  have ad: "allocates mem (slice_len (nat d) 0 2)" using assms(4) by (simp add: slice_len_half)
  have zs: "zeros mem [L, d] = Inr z" using assms(1,2,3) by (simp add: zeros2 z_def)
  have ar: "arange mem 0 L 1 = Inr \<lparr>shape = [nat L], elem = (\<lambda>idx. Fin (real (idx ! 0)))\<rparr>"
    using assms(1) al by (simp add: arange_up)
  have av: "arange mem 0 d 2 = Inr \<lparr>shape = [slice_len (nat d) 0 2],
        elem = (\<lambda>idx. Fin (real_of_int (int (idx ! 0) * 2)))\<rparr>"
    using assms(2) ad by (simp add: arange_up ceil_half)
  have "pe_sin mem d L = bindE (broadcast_op fl_mul p dv) (\<lambda>angle.
     bindE (setitem_cols z 0 2 (tmap fl_sin angle)) (\<lambda>pe. Inr (pe, p, dv)))"
    using assms(1,2)
    by (simp add: pe_sin_def zs ar av py_truediv_def unsqueeze_1
        p_def dv_def Let_def numeral_2_eq_2)
  then have run: "pe_sin mem d L = Inr (r, p, dv)"
    using r(1) a(1) by simp
  have er: "elem r [pos, c] =
            (if even c then Fin (sin (real pos * exp (real c * (- ln 10000 / real_of_int d)))) else Fin 0)"
    if "pos < nat L" "c < nat d" for pos c
  proof (cases "even c")
    case True
    then obtain i where i: "c = 2 * i" by (elim evenE)
    have "i < slice_len (nat d) 0 2" using slice_len_bound[of 0 c "nat d" 2] that i by simp
    then show ?thesis using r(3)[OF that] a(3)[OF that(1)] i ep edv
      by (simp add: tmap_def)
  next
    case False
    then have "c mod 2 = 1" by (simp add: odd_iff_mod_2_eq_one)
    with False show ?thesis using r(3)[OF that] by (simp add: z_def)
  qed
  show ?thesis using run r(2) shp shdv ep edv er by blast
qed


lemma floor_half: "slice_len d (Suc 0) 2 = d div 2"
  by (auto simp: slice_len_def)

lemma even_slices: "even d \<Longrightarrow> slice_len d 0 2 = d div 2"
  by (auto simp: slice_len_def elim!: evenE)

lemma odd_slices: "odd d \<Longrightarrow> slice_len d 0 2 = Suc (d div 2)"
  by (auto simp: slice_len_def elim!: oddE)

lemma powr_angle:
  assumes "0 < d"
  shows "real pos * exp (real (2 * i) * (- ln 10000 / real_of_int d))
       = real pos / 10000 powr (real (2 * i) / real_of_int d)"
  by (simp add: powr_def exp_minus divide_inverse algebra_simps)

lemma pe_table_char:
  assumes "0 \<le> L" "0 < d" "allocates mem (nat L * nat d)" "allocates mem ((nat d + 1) div 2)"
    and "even d \<or> d = 1"
  shows "\<exists>t. pe_table mem d L = Inr t \<and> shape t = [nat L, nat d]
      \<and> (\<forall>pos i. pos < nat L \<longrightarrow> 2 * i < nat d \<longrightarrow>
            elem t [pos, 2 * i] = Fin (sin (real pos / 10000 powr (real (2 * i) / real_of_int d))))
      \<and> (\<forall>pos i. pos < nat L \<longrightarrow> 2 * i + 1 < nat d \<longrightarrow>
            elem t [pos, 2 * i + 1] = Fin (cos (real pos / 10000 powr (real (2 * i) / real_of_int d))))"
proof -
  obtain t p dv where s: "pe_sin mem d L = Inr (t, p, dv)" "shape t = [nat L, nat d]" "shape p = [nat L, 1]"
      "shape dv = [slice_len (nat d) 0 2]"
      "\<And>pos. elem p [pos, 0] = Fin (real pos)"
      "\<And>i. elem dv [i] = Fin (exp (real (2 * i) * (- ln 10000 / real_of_int d)))"
      "\<And>pos c. pos < nat L \<Longrightarrow> c < nat d \<Longrightarrow> elem t [pos, c] =
            (if even c then Fin (sin (real pos * exp (real c * (- ln 10000 / real_of_int d)))) else Fin 0)"
    using pe_sin_char[OF assms(1,2,3,4)] by blast
  obtain a where a: "broadcast_op fl_mul p dv = Inr a" "shape a = [nat L, slice_len (nat d) 0 2]"
     "\<And>pos i. pos < nat L \<Longrightarrow> i < slice_len (nat d) 0 2 \<Longrightarrow> elem a [pos, i] = fl_mul (elem p [pos, 0]) (elem dv [i])"
    using angle_char[OF s(3,4)] by blast
  have run: "pe_table mem d L = setitem_cols t 1 2 (tmap fl_cos a)"
    using s(1) a(1) by (simp add: pe_table_def)
  have sin_part: "elem t [pos, 2 * i] = Fin (sin (real pos / 10000 powr (real (2 * i) / real_of_int d)))"
    if "pos < nat L" "2 * i < nat d" for pos i
    using s(7)[OF that] powr_angle[OF assms(2)] by simp
  show ?thesis
  proof (cases "even d")
    case True
    then have ev: "even (nat d)" using assms(2) by (simp add: even_nat_iff)
    have shc: "shape (tmap fl_cos a) = [nat L, slice_len (nat d) 1 2]"
      using a(2) ev by (simp add: tmap_def floor_half even_slices)
    obtain r where r: "setitem_cols t 1 2 (tmap fl_cos a) = Inr r" "shape r = [nat L, nat d]"
      "\<And>pos col. pos < nat L \<Longrightarrow> col < nat d \<Longrightarrow> elem r [pos, col] =
        (if 1 \<le> col \<and> (col - 1) mod 2 = 0 then elem (tmap fl_cos a) [pos, (col - 1) div 2]
         else elem t [pos, col])"
      using setitem_same[OF s(2) shc] by (metis zero_less_numeral)
    have e1: "elem r [pos, 2 * i] = Fin (sin (real pos / 10000 powr (real (2 * i) / real_of_int d)))"
      if "pos < nat L" "2 * i < nat d" for pos i
    proof -
      have "\<not> (1 \<le> 2 * i \<and> (2 * i - 1) mod 2 = 0)" by presburger
      then have "elem r [pos, 2 * i] = elem t [pos, 2 * i]" using r(3)[OF that] by metis
      then show ?thesis using sin_part[OF that] by simp
    qed
    have e2: "elem r [pos, 2 * i + 1] = Fin (cos (real pos / 10000 powr (real (2 * i) / real_of_int d)))"
      if "pos < nat L" "2 * i + 1 < nat d" for pos i
    proof -
      have "i < slice_len (nat d) 0 2" using that(2) ev by (simp add: even_slices)
      then show ?thesis using r(3)[OF that] a(3)[OF that(1)] s(5,6) powr_angle[OF assms(2)]
        by (simp add: tmap_def)
    qed
    show ?thesis using run r(1,2) e1 e2 by simp
  next
    case False
    then have d1: "d = 1" using assms(5) by simp
    have shc: "shape (tmap fl_cos a) = [nat L, 1]"
      using a(2) d1 by (simp add: tmap_def slice_len_def)
    obtain r where r: "setitem_cols t 1 2 (tmap fl_cos a) = Inr r" "shape r = [nat L, nat d]"
      "\<And>pos col. col < nat d \<Longrightarrow> elem r [pos, col] = elem t [pos, col]"
      using setitem_empty[OF s(2) shc, of 1 2] d1 by auto
    have e1: "elem r [pos, 2 * i] = Fin (sin (real pos / 10000 powr (real (2 * i) / real_of_int d)))"
      if "pos < nat L" "2 * i < nat d" for pos i
      using r(3)[OF that(2)] sin_part[OF that] by simp
    have e2: "elem r [pos, 2 * i + 1] = Fin (cos (real pos / 10000 powr (real (2 * i) / real_of_int d)))"
      if "pos < nat L" "2 * i + 1 < nat d" for pos i
      using that d1 by simp
    show ?thesis using run r(1,2) e1 e2 by simp
  qed
qed

lemma pe_table_odd:
  assumes "0 \<le> L" "odd d" "3 \<le> d" "allocates mem (nat L * nat d)" "allocates mem ((nat d + 1) div 2)"
  shows "(\<exists>r. pe_sin mem d L = Inr r) \<and> pe_table mem d L = Inl RuntimeError"
proof -
  have dpos: "0 < d" using assms by simp
  obtain t p dv where s: "pe_sin mem d L = Inr (t, p, dv)" "shape t = [nat L, nat d]" "shape p = [nat L, 1]"
      "shape dv = [slice_len (nat d) 0 2]"
    using pe_sin_char[OF assms(1) dpos assms(4,5)] by blast
  obtain a where a: "broadcast_op fl_mul p dv = Inr a" "shape a = [nat L, slice_len (nat d) 0 2]"
    using angle_char[OF s(3,4)] by blast
  have od: "odd (nat d)" using assms by (simp add: even_nat_iff)
  have shc: "shape (tmap fl_cos a) = [nat L, Suc (nat d div 2)]"
    using a(2) od by (simp add: tmap_def odd_slices)
  have "1 \<le> nat d div 2" using assms(3) by linarith
  then have "setitem_cols t 1 2 (tmap fl_cos a) = Inl RuntimeError"
    using setitem_mismatch[OF s(2) shc, of 1 2] by (simp add: floor_half)
  then show ?thesis using s(1) a(1) by (simp add: pe_table_def)
qed

lemma valid_broadcast_index:
  assumes "valid_index sh idx"
  shows "broadcast_index sh idx = idx"
proof -
  from assms have all: "list_all2 (\<lambda>i d. i < d) idx sh" by (simp add: valid_index_def)
  then have len: "length idx = length sh" by (rule list_all2_lengthD)
  from all have "map2 (\<lambda>d i. if d = 1 then 0 else i) sh idx = idx"
    by (induction idx sh rule: list_all2_induct) auto
  then show ?thesis using len by (simp add: broadcast_index_def)
qed

lemma broadcast_rev_expand:
  "length ys \<le> length xs \<Longrightarrow> list_all2 (\<lambda>m s. m = s \<or> m = 1) ys (take (length ys) xs)
     \<Longrightarrow> broadcast_rev xs ys = Some xs"
  by (induction xs ys rule: broadcast_rev.induct) auto

lemma expandable_broadcast:
  assumes "expandable ms ss"
  shows "broadcast_shapes ss ms = Some ss"
proof -
  from assms have len: "length ms \<le> length ss"
    and all: "list_all2 (\<lambda>s t. s = t \<or> s = 1) ms (drop (length ss - length ms) ss)"
    by (simp_all add: expandable_def)
  from all have "list_all2 (\<lambda>s t. s = t \<or> s = 1) (rev ms) (rev (drop (length ss - length ms) ss))"
    by simp
  then have "list_all2 (\<lambda>s t. s = t \<or> s = 1) (rev ms) (take (length (rev ms)) (rev ss))"
    using len by (simp add: rev_drop)
  then have "broadcast_rev (rev ss) (rev ms) = Some (rev ss)"
    using len by (intro broadcast_rev_expand) simp_all
  then show ?thesis by (simp add: broadcast_shapes_def)
qed

lemma broadcast_shapes_same: "broadcast_shapes sh sh = Some sh"
  by (rule expandable_broadcast) (simp add: expandable_def list_all2_same)

text \<open>The constructor raises \<^verbatim>\<open>RuntimeError\<close> when a tensor cannot be created.\<close>

lemma pe_sin_no_storage:
  assumes "0 < d" "L < 0 \<or> \<not> allocates mem (nat L * nat d) \<or> \<not> allocates mem ((nat d + 1) div 2)"
  shows "pe_sin mem d L = Inl RuntimeError"
proof (cases "L < 0 \<or> \<not> allocates mem (nat L * nat d)")
  case True
  then have "zeros mem [L, d] = Inl RuntimeError" by (intro zeros2_neg) auto
  then show ?thesis by (simp add: pe_sin_def)
next
  case False
  then have L: "0 \<le> L" and a: "allocates mem (nat L * nat d)" by auto
  have n: "\<not> allocates mem (slice_len (nat d) 0 2)" using assms(2) False by (simp add: slice_len_half)
  have "nat L \<le> nat L * nat d" using assms(1) by (cases "nat d") simp_all
  then have al: "allocates mem (nat L)" using allocates_mono[OF a] by simp
  have zs: "zeros mem [L, d] = Inr \<lparr>shape = [nat L, nat d], elem = (\<lambda>idx. Fin 0)\<rparr>"
    using L assms(1) a by (simp add: zeros2)
  have ar: "arange mem 0 L 1 = Inr \<lparr>shape = [nat L], elem = (\<lambda>idx. Fin (real (idx ! 0)))\<rparr>"
    using L al by (simp add: arange_up)
  have av: "arange mem 0 d 2 = Inl RuntimeError"
    using assms(1) n by (intro arange_full) (simp_all add: ceil_half)
  show ?thesis by (simp add: pe_sin_def zs ar av unsqueeze_1)
qed

lemma pe_sin_fails:
  assumes "L < 0 \<or> d \<le> 0 \<or> \<not> allocates mem (nat L * nat d) \<or> \<not> allocates mem ((nat d + 1) div 2)"
  shows "\<exists>e. pe_sin mem d L = Inl e"
proof (cases "0 < d")
  case True
  then show ?thesis using pe_sin_no_storage[OF True] assms by auto
next
  case False
  show ?thesis
  proof (cases "L < 0 \<or> d < 0")
    case True
    then have "zeros mem [L, d] = Inl RuntimeError" by (intro zeros2_neg) auto
    then show ?thesis by (simp add: pe_sin_def)
  next
    case nn: False
    then have d0: "d = 0" and L: "0 \<le> L" using False by auto
    have zs: "zeros mem [L, 0] = Inr \<lparr>shape = [nat L, 0], elem = (\<lambda>idx. Fin 0)\<rparr>"
      using L zeros2[of L 0 mem] by (simp add: allocates_0)
    show ?thesis
    proof (cases "allocates mem (nat L)")
      case True
      have ar: "arange mem 0 L 1 = Inr \<lparr>shape = [nat L], elem = (\<lambda>idx. Fin (real (idx ! 0)))\<rparr>"
        using L True by (simp add: arange_up)
      have av: "\<exists>t. arange mem 0 0 2 = Inr t"
        by (simp add: arange_def allocates_0)
      then obtain t where t: "arange mem 0 0 2 = Inr t" by blast
      show ?thesis unfolding d0 by (simp add: pe_sin_def zs ar t unsqueeze_1 py_truediv_def)
    next
      case False
      then have "arange mem 0 L 1 = Inl RuntimeError" using L by (intro arange_full) simp_all
      then show ?thesis unfolding d0 by (simp add: pe_sin_def zs)
    qed
  qed
qed

lemma init_Inr:
  assumes "PositionalEncoding_init mem d L = Inr P"
  shows "0 \<le> L \<and> 0 < d \<and> (even d \<or> d = 1)
         \<and> allocates mem (nat L * nat d) \<and> allocates mem ((nat d + 1) div 2)
         \<and> (\<exists>t. pe_table mem d L = Inr t \<and> shape t = [nat L, nat d] \<and>
           shape (pe P) = [1, nat L, nat d] \<and> (\<forall>pos c. elem (pe P) [0, pos, c] = elem t [pos, c]))"
proof -
  have ok: "0 \<le> L \<and> 0 < d \<and> allocates mem (nat L * nat d) \<and> allocates mem ((nat d + 1) div 2)"
  proof (rule ccontr)
    assume "\<not> (0 \<le> L \<and> 0 < d \<and> allocates mem (nat L * nat d) \<and> allocates mem ((nat d + 1) div 2))"
    then have "\<exists>e. pe_sin mem d L = Inl e" by (intro pe_sin_fails) auto
    then show False using assms by (auto simp: PositionalEncoding_init_def pe_table_def)
  qed
  have ev: "even d \<or> d = 1"
  proof (rule ccontr)
    assume "\<not> (even d \<or> d = 1)"
    moreover have "0 < d" using ok by simp
    ultimately have "odd d" "3 \<le> d" by presburger+
    then have "pe_table mem d L = Inl RuntimeError" using pe_table_odd ok by blast
    then show False using assms by (simp add: PositionalEncoding_init_def)
  qed
  obtain t where t: "pe_table mem d L = Inr t" "shape t = [nat L, nat d]"
    using pe_table_char[of L d mem] ok ev by blast
  have "P = \<lparr>pe = \<lparr>shape = [1, nat L, nat d], elem = (\<lambda>idx. elem t (take 0 idx @ drop (Suc 0) idx))\<rparr>\<rparr>"
    using assms t by (simp add: PositionalEncoding_init_def unsqueeze_0)
  then show ?thesis using ok ev t by simp
qed

lemma forward_unfold:
  assumes "shape x = [B, S, D]"
  shows "PositionalEncoding_forward P x =
     bindE (slice_dim1_to (pe P) S) (\<lambda>looked_up. tensor_add x looked_up)"
  using assms by (simp add: PositionalEncoding_forward_def size_dim_def wrap_dim_def rank_def)

lemma broadcast3_batch: "broadcast_shapes [B, S, D] [Suc 0, S, D] = Some [B, S, D]"
  by (rule expandable_broadcast) (simp add: expandable_def)

lemma broadcast3_fail: "S \<noteq> L \<Longrightarrow> L \<noteq> Suc 0 \<Longrightarrow> S \<noteq> Suc 0 \<Longrightarrow> broadcast_shapes [B, S, D] [Suc 0, L, D] = None"
  by (simp add: broadcast_shapes_def)

lemma pe_forward_char:
  assumes "PositionalEncoding_init mem d L = Inr P" "shape x = [B, S, nat d]"
  shows "(int S \<le> L \<longrightarrow> (\<exists>y. PositionalEncoding_forward P x = Inr y \<and> shape y = [B, S, nat d] \<and>
            (\<forall>b<B. \<forall>i<S. \<forall>k<nat d. elem y [b, i, k] = fl_add (elem x [b, i, k]) (elem (pe P) [0, i, k]))))
       \<and> (L < int S \<and> L \<noteq> 1 \<and> S \<noteq> 1 \<longrightarrow>
            (\<exists>t. slice_dim1_to (pe P) S = Inr t) \<and> PositionalEncoding_forward P x = Inl RuntimeError)"
proof -
  from init_Inr[OF assms(1)] have L: "0 \<le> L" and shp: "shape (pe P) = [1, nat L, nat d]" by auto
  have sl: "slice_dim1_to (pe P) S = Inr \<lparr>shape = [1, min S (nat L), nat d], elem = elem (pe P)\<rparr>"
    using shp by (simp add: slice_dim1_to_def rank_def)
  have fw: "PositionalEncoding_forward P x = tensor_add x \<lparr>shape = [1, min S (nat L), nat d], elem = elem (pe P)\<rparr>"
    using forward_unfold[OF assms(2)] sl by simp
  have le: ?thesis if "int S \<le> L" "L < int S \<and> L \<noteq> 1 \<and> S \<noteq> 1 \<Longrightarrow> False"
  proof -
    have m: "min S (nat L) = S" using that by simp
    have bi: "broadcast_index [B, S, nat d] [b, i, k] = [b, i, k]" if "b < B" "i < S" "k < nat d" for b i k
      using that by (intro valid_broadcast_index) (simp add: valid_index_def)
    have bi2: "broadcast_index [Suc 0, S, nat d] [b, i, k] = [0, i, k]" if "b < B" "i < S" "k < nat d" for b i k
      using that by (auto simp: broadcast_index_def)
    show ?thesis using that fw assms(2)
      by (auto simp: tensor_add_def broadcast_op_def m broadcast3_batch bi bi2)
  qed
  have gt: ?thesis if "L < int S" "L \<noteq> 1" "S \<noteq> 1"
  proof -
    have m: "min S (nat L) = nat L" using that L by simp
    have "broadcast_shapes [B, S, nat d] [Suc 0, nat L, nat d] = None"
      using that L by (intro broadcast3_fail) auto
    then show ?thesis using that fw sl assms(2) by (simp add: tensor_add_def broadcast_op_def m)
  qed
  show ?thesis using le gt by (cases "int S \<le> L") auto
qed

text \<open>
  Claim C9, amended. For an instance built with \<open>(d_model, max_seq_length)\<close> on any
  machine and an input of
  shape \<open>[B, S, d_model]\<close>: if \<open>S \<le> max_seq_length\<close>, \<open>forward\<close> returns \<open>x + PE[:S]\<close>
  broadcast over the batch; if \<open>S > max_seq_length\<close>, \<open>max_seq_length \<noteq> 1\<close> and \<open>S \<noteq> 1\<close>,
  the lookup (a slice) succeeds and the addition raises.
\<close>

theorem positional_encoding_forward:
  assumes "PositionalEncoding_init mem d L = Inr P" "shape x = [B, S, nat d]"
  shows "(int S \<le> L \<longrightarrow> (\<exists>y. PositionalEncoding_forward P x = Inr y \<and> shape y = [B, S, nat d] \<and>
            (\<forall>b<B. \<forall>i<S. \<forall>k<nat d. elem y [b, i, k] = fl_add (elem x [b, i, k]) (elem (pe P) [0, i, k]))))
       \<and> (L < int S \<and> L \<noteq> 1 \<and> S \<noteq> 1 \<longrightarrow>
            (\<exists>t. slice_dim1_to (pe P) S = Inr t) \<and> PositionalEncoding_forward P x = Inl RuntimeError)"
  using pe_forward_char[OF assms] .

lemmas mask_eval = create_mask_def bindE_def unsqueeze_def wrap_dim_def rank_def ne_scalar_def tmap_def
      size_dim_def nopeak_def ones_def full_def triu_def to_bool_def rsub_scalar_def logical_and_def
      broadcast_op_def broadcast_shapes_def broadcast_index_def fl_sub_def

lemma nopeak_char:
  "\<exists>np. nopeak T = Inr np \<and> shape np = [1, T, T] \<and> (\<forall>i j. elem np [0, i, j] = (j \<le> i))"
  by (auto simp: nopeak_def ones_def full_def triu_def rank_def to_bool_def rsub_scalar_def tmap_def fl_sub_def)

lemma create_mask_char:
  assumes "shape src = [B, S]" "shape tgt = [B, T]"
  shows "\<exists>sm tm. create_mask src tgt = Inr (sm, tm)
      \<and> shape sm = [B, 1, 1, S] \<and> shape tm = [B, 1, T, T]
      \<and> (\<forall>b<B. \<forall>j<S. elem sm [b, 0, 0, j] = (elem src [b, j] \<noteq> 0))
      \<and> (\<forall>b<B. \<forall>i<T. \<forall>j<T. elem tm [b, 0, i, j] = (elem tgt [b, j] \<noteq> 0 \<and> j \<le> i))"
  using assms
  apply (simp add: mask_eval)
  apply (auto)
  done

lemma mask_entry_4:
  assumes "shape m = [B, 1, Q, K]" "b < B" "i < Q \<or> Q = 1" "j < K"
  shows "mask_entry m [b, h, i, j] = elem m [b, 0, if Q = 1 then 0 else i, j]"
  using assms by (auto simp: mask_entry_def broadcast_index_def)

lemma list_ex_upt: "list_ex P [0..<n] = (\<exists>j<n. P j)"
  by (auto simp: list_ex_iff)

text \<open>
  Claim C2. For integer tensors \<open>src\<close> of shape \<open>[B, S]\<close> and \<open>tgt\<close> of shape \<open>[B, T]\<close>,
  \<open>create_mask\<close> returns a source mask of shape \<open>[B, 1, 1, S]\<close> that is true exactly at the
  non-zero source tokens, and a target mask of shape \<open>[B, 1, T, T]\<close> that is true at
  query \<open>i\<close> and key \<open>j\<close> exactly when the target token \<open>j\<close> is non-zero and \<open>j \<le> i\<close>.
\<close>

theorem create_mask_correct:
  assumes "shape src = [B, S]" "shape tgt = [B, T]"
  shows "\<exists>sm tm. create_mask src tgt = Inr (sm, tm)
      \<and> shape sm = [B, 1, 1, S] \<and> shape tm = [B, 1, T, T]
      \<and> (\<forall>b<B. \<forall>j<S. elem sm [b, 0, 0, j] = (elem src [b, j] \<noteq> 0))
      \<and> (\<forall>b<B. \<forall>i<T. \<forall>j<T. elem tm [b, 0, i, j] = (elem tgt [b, j] \<noteq> 0 \<and> j \<le> i))"
  using create_mask_char[OF assms] .

text \<open>The theorem at \<open>src = [[5, 0]]\<close> and \<open>tgt = [[3, 0]]\<close>.\<close>

theorem create_mask_correct_witness:
  "\<exists>sm tm. create_mask \<lparr>shape = [1, 2], elem = (\<lambda>idx. if idx = [0, 0] then 5 else 0)\<rparr>
                        \<lparr>shape = [1, 2], elem = (\<lambda>idx. if idx = [0, 0] then 3 else 0)\<rparr> = Inr (sm, tm)
     \<and> elem sm [0, 0, 0, 0] \<and> \<not> elem sm [0, 0, 0, 1]
     \<and> elem tm [0, 0, 0, 0] \<and> \<not> elem tm [0, 0, 0, 1] \<and> elem tm [0, 0, 1, 0] \<and> \<not> elem tm [0, 0, 1, 1]"
proof -
  let ?src = "\<lparr>shape = [1, 2], elem = (\<lambda>idx. if idx = [0, 0] then 5 else (0::int))\<rparr>"
  let ?tgt = "\<lparr>shape = [1, 2], elem = (\<lambda>idx. if idx = [0, 0] then 3 else (0::int))\<rparr>"
  have s: "shape ?src = [1, 2]" and t: "shape ?tgt = [1, 2]" by simp_all
  from create_mask_correct[OF s t] obtain sm tm where
    r: "create_mask ?src ?tgt = Inr (sm, tm)"
    and a: "\<forall>b<1. \<forall>j<2. elem sm [b, 0, 0, j] = (elem ?src [b, j] \<noteq> 0)"
    and b: "\<forall>b<1. \<forall>i<2. \<forall>j<2. elem tm [b, 0, i, j] = (elem ?tgt [b, j] \<noteq> 0 \<and> j \<le> i)"
    by (elim exE conjE)
  have "elem sm [0, 0, 0, 0]" "\<not> elem sm [0, 0, 0, 1]"
    using a[rule_format, of 0 0] a[rule_format, of 0 1] by simp_all
  moreover have "elem tm [0, 0, 0, 0]" "\<not> elem tm [0, 0, 0, 1]" "elem tm [0, 0, 1, 0]" "\<not> elem tm [0, 0, 1, 1]"
    using b[rule_format, of 0 0 0] b[rule_format, of 0 0 1] b[rule_format, of 0 1 0] b[rule_format, of 0 1 1]
    by simp_all
  ultimately show ?thesis using r by simp
qed

text \<open>
  Claim C7, amended. The causal mask alone lets every query position attend to itself.
  Under the masks of \<open>create_mask\<close>, a query row of the decoder self-attention has an
  attendable key exactly when the target holds a non-pad token at or before the query
  position, and a query row of the encoder self-attention or of the cross-attention has
  one exactly when the source row holds a non-pad token.
\<close>

theorem valid_key_rows:
  assumes "shape src = [B, S]" "shape tgt = [B, T]"
  shows "\<exists>sm tm np. create_mask src tgt = Inr (sm, tm) \<and> nopeak T = Inr np
      \<and> (\<forall>i<T. elem np [0, i, i])
      \<and> (\<forall>b<B. \<forall>h. \<forall>i<T. row_has_valid_key tm [b, h, i] T = (\<exists>j\<le>i. elem tgt [b, j] \<noteq> 0))
      \<and> (\<forall>b<B. \<forall>h i. row_has_valid_key sm [b, h, i] S = (\<exists>j<S. elem src [b, j] \<noteq> 0))"
proof -
  obtain sm tm where m: "create_mask src tgt = Inr (sm, tm)"
      "shape sm = [B, 1, 1, S]" "shape tm = [B, 1, T, T]"
      "\<forall>b<B. \<forall>j<S. elem sm [b, 0, 0, j] = (elem src [b, j] \<noteq> 0)"
      "\<forall>b<B. \<forall>i<T. \<forall>j<T. elem tm [b, 0, i, j] = (elem tgt [b, j] \<noteq> 0 \<and> j \<le> i)"
    using create_mask_char[OF assms] by blast
  obtain np where np: "nopeak T = Inr np" "\<forall>i j. elem np [0, i, j] = (j \<le> i)"
    using nopeak_char by blast
  have tmr: "row_has_valid_key tm [b, h, i] T = (\<exists>j\<le>i. elem tgt [b, j] \<noteq> 0)" if "b < B" "i < T" for b h i
  proof -
    have "mask_entry tm [b, h, i, j] = (elem tgt [b, j] \<noteq> 0 \<and> j \<le> i)" if "j < T" for j
      using mask_entry_4[OF m(3) \<open>b < B\<close>, of i j h] m(5) that \<open>b < B\<close> \<open>i < T\<close> by auto
    moreover have "j < T" if "j \<le> i" for j using that \<open>i < T\<close> by simp
    ultimately show ?thesis unfolding row_has_valid_key_def list_ex_upt by auto
  qed
  have smr: "row_has_valid_key sm [b, h, i] S = (\<exists>j<S. elem src [b, j] \<noteq> 0)" if "b < B" for b h i
  proof -
    have "mask_entry sm [b, h, i, j] = (elem src [b, j] \<noteq> 0)" if "j < S" for j
      using mask_entry_4[OF m(2) \<open>b < B\<close>, of i j h] m(4) that \<open>b < B\<close> by auto
    then show ?thesis unfolding row_has_valid_key_def list_ex_upt by auto
  qed
  have "\<forall>i<T. elem np [0, i, i]" using np(2) by simp
  then show ?thesis using m(1) np(1) tmr smr by (intro exI[of _ sm] exI[of _ tm] exI[of _ np]) simp

qed

text \<open>The theorem at \<open>src = [[5, 0]]\<close> and \<open>tgt = [[3, 0]]\<close>: every row has a valid key.\<close>

theorem valid_key_rows_witness:
  "\<exists>sm tm. create_mask \<lparr>shape = [1, 2], elem = (\<lambda>idx. if idx = [0, 0] then 5 else 0)\<rparr>
                        \<lparr>shape = [1, 2], elem = (\<lambda>idx. if idx = [0, 0] then 3 else 0)\<rparr> = Inr (sm, tm)
     \<and> row_has_valid_key tm [0, 0, 0] 2 \<and> row_has_valid_key tm [0, 0, 1] 2
     \<and> row_has_valid_key sm [0, 0, 0] 2 \<and> row_has_valid_key sm [0, 0, 1] 2"
proof -
  let ?src = "\<lparr>shape = [1, 2], elem = (\<lambda>idx. if idx = [0, 0] then 5 else (0::int))\<rparr>"
  let ?tgt = "\<lparr>shape = [1, 2], elem = (\<lambda>idx. if idx = [0, 0] then 3 else (0::int))\<rparr>"
  have s: "shape ?src = [1, 2]" and t: "shape ?tgt = [1, 2]" by simp_all
  from valid_key_rows[OF s t] obtain sm tm where
    r: "create_mask ?src ?tgt = Inr (sm, tm)"
    and a: "\<forall>b<1. \<forall>h. \<forall>i<2. row_has_valid_key tm [b, h, i] 2 = (\<exists>j\<le>i. elem ?tgt [b, j] \<noteq> 0)"
    and b: "\<forall>b<1. \<forall>h i. row_has_valid_key sm [b, h, i] 2 = (\<exists>j<2. elem ?src [b, j] \<noteq> 0)"
    by (elim exE conjE)
  have "row_has_valid_key tm [0, 0, 0] 2" "row_has_valid_key tm [0, 0, 1] 2"
    using a[rule_format, of 0 0 0] a[rule_format, of 0 1 0] by auto
  moreover have "row_has_valid_key sm [0, 0, 0] 2" "row_has_valid_key sm [0, 0, 1] 2"
    using b[rule_format, of 0 0 0] b[rule_format, of 0 0 1] by auto
  ultimately show ?thesis using r by simp
qed

text \<open>
  Claim C7 as stated fails: with an all-pad source row and an all-pad target row, the
  first query row has no attendable key under either mask.
\<close>

theorem valid_key_rows_counterexample:
  "\<exists>sm tm. create_mask \<lparr>shape = [1, 2], elem = (\<lambda>idx. 0)\<rparr> \<lparr>shape = [1, 2], elem = (\<lambda>idx. 0)\<rparr> = Inr (sm, tm)
     \<and> \<not> row_has_valid_key tm [0, 0, 0] 2 \<and> \<not> row_has_valid_key sm [0, 0, 0] 2"
  by (simp add: mask_eval row_has_valid_key_def mask_entry_def list_ex_iff)

lemma init_ok:
  assumes "0 \<le> L" "0 < d" "allocates mem (nat L * nat d)" "allocates mem ((nat d + 1) div 2)"
    and "even d \<or> d = 1"
  shows "\<exists>P t. PositionalEncoding_init mem d L = Inr P \<and> pe_table mem d L = Inr t
           \<and> shape (pe P) = [1, nat L, nat d] \<and> (\<forall>pos c. elem (pe P) [0, pos, c] = elem t [pos, c])"
proof -
  obtain t where t: "pe_table mem d L = Inr t" "shape t = [nat L, nat d]"
    using pe_table_char[OF assms] by blast
  then show ?thesis by (simp add: PositionalEncoding_init_def unsqueeze_0)
qed

text \<open>
  Claim C3, amended. The constructor succeeds exactly when \<open>max_seq_length \<ge> 0\<close>,
  \<open>d_model\<close> is positive and even (or equal to 1), and the machine can allocate the table
  of \<open>max_seq_length \<times> d_model\<close> elements and the vector of \<open>\<lceil>d_model / 2\<rceil>\<close> frequencies.
  Then the table has shape \<open>[max_seq_length, d_model]\<close>, the registered buffer has the same
  entries under one leading dimension of size 1, and
  \<open>PE[pos, 2i] = sin (pos / 10000 ^ (2i / d_model))\<close>,
  \<open>PE[pos, 2i + 1] = cos (pos / 10000 ^ (2i / d_model))\<close>, in exact real arithmetic.
  In every other case the constructor raises.
\<close>

theorem positional_encoding_table:
  "(0 \<le> L \<and> 0 < d \<and> (even d \<or> d = 1)
      \<and> allocates mem (nat L * nat d) \<and> allocates mem ((nat d + 1) div 2) \<longrightarrow>
    (\<exists>t P. pe_table mem d L = Inr t \<and> PositionalEncoding_init mem d L = Inr P
      \<and> shape t = [nat L, nat d] \<and> shape (pe P) = [1, nat L, nat d]
      \<and> (\<forall>pos<nat L. \<forall>i. 2 * i < nat d \<longrightarrow>
            elem t [pos, 2 * i] = Fin (sin (real pos / 10000 powr (real (2 * i) / real_of_int d)))
          \<and> elem (pe P) [0, pos, 2 * i] = elem t [pos, 2 * i])
      \<and> (\<forall>pos<nat L. \<forall>i. 2 * i + 1 < nat d \<longrightarrow>
            elem t [pos, 2 * i + 1] = Fin (cos (real pos / 10000 powr (real (2 * i) / real_of_int d)))
          \<and> elem (pe P) [0, pos, 2 * i + 1] = elem t [pos, 2 * i + 1])))
   \<and> (\<not> (0 \<le> L \<and> 0 < d \<and> (even d \<or> d = 1)
          \<and> allocates mem (nat L * nat d) \<and> allocates mem ((nat d + 1) div 2)) \<longrightarrow>
        (\<exists>e. PositionalEncoding_init mem d L = Inl e))"
proof (intro conjI impI)
  assume a: "0 \<le> L \<and> 0 < d \<and> (even d \<or> d = 1)
      \<and> allocates mem (nat L * nat d) \<and> allocates mem ((nat d + 1) div 2)"
  then have h: "0 \<le> L" "0 < d" "allocates mem (nat L * nat d)" "allocates mem ((nat d + 1) div 2)"
      "even d \<or> d = 1"
    by simp_all
  obtain t where t: "pe_table mem d L = Inr t" "shape t = [nat L, nat d]"
      "\<forall>pos i. pos < nat L \<longrightarrow> 2 * i < nat d \<longrightarrow>
            elem t [pos, 2 * i] = Fin (sin (real pos / 10000 powr (real (2 * i) / real_of_int d)))"
      "\<forall>pos i. pos < nat L \<longrightarrow> 2 * i + 1 < nat d \<longrightarrow>
            elem t [pos, 2 * i + 1] = Fin (cos (real pos / 10000 powr (real (2 * i) / real_of_int d)))"
    using pe_table_char[OF h] by blast
  obtain P where P: "PositionalEncoding_init mem d L = Inr P" "shape (pe P) = [1, nat L, nat d]"
      "\<forall>pos c. elem (pe P) [0, pos, c] = elem t [pos, c]"
    using init_ok[OF h] t(1) by auto
  show "\<exists>t P. pe_table mem d L = Inr t \<and> PositionalEncoding_init mem d L = Inr P
      \<and> shape t = [nat L, nat d] \<and> shape (pe P) = [1, nat L, nat d]
      \<and> (\<forall>pos<nat L. \<forall>i. 2 * i < nat d \<longrightarrow>
            elem t [pos, 2 * i] = Fin (sin (real pos / 10000 powr (real (2 * i) / real_of_int d)))
          \<and> elem (pe P) [0, pos, 2 * i] = elem t [pos, 2 * i])
      \<and> (\<forall>pos<nat L. \<forall>i. 2 * i + 1 < nat d \<longrightarrow>
            elem t [pos, 2 * i + 1] = Fin (cos (real pos / 10000 powr (real (2 * i) / real_of_int d)))
          \<and> elem (pe P) [0, pos, 2 * i + 1] = elem t [pos, 2 * i + 1])"
    using t P by (intro exI[of _ t] exI[of _ P]) simp
next
  assume n: "\<not> (0 \<le> L \<and> 0 < d \<and> (even d \<or> d = 1)
          \<and> allocates mem (nat L * nat d) \<and> allocates mem ((nat d + 1) div 2))"
  show "\<exists>e. PositionalEncoding_init mem d L = Inl e"
  proof (cases "PositionalEncoding_init mem d L")
    case (Inl e)
    then show ?thesis by blast
  next
    case (Inr P)
    from init_Inr[OF Inr] n show ?thesis by blast
  qed
qed

text \<open>
  The theorem at \<open>d_model = 2\<close>, \<open>max_seq_length = 2\<close> on a machine that holds 100 elements;
  at \<open>d_model = 3\<close>; and at \<open>max_seq_length = 2 ^ 62\<close>, which no machine holds.
\<close>

theorem positional_encoding_table_witness:
  "(\<exists>t. pe_table 100 2 2 = Inr t \<and> shape t = [2, 2]
      \<and> elem t [1, 0] = Fin (sin 1) \<and> elem t [1, 1] = Fin (cos 1)
      \<and> elem t [0, 0] = Fin 0 \<and> elem t [0, 1] = Fin 1)
   \<and> (\<exists>e. PositionalEncoding_init 100 3 10 = Inl e)
   \<and> (\<forall>mem. \<exists>e. PositionalEncoding_init mem 2 (2 ^ 62) = Inl e)"
proof -
  have h: "(0::int) \<le> 2 \<and> (0::int) < 2 \<and> (even (2::int) \<or> (2::int) = 1)
      \<and> allocates 100 (nat 2 * nat 2) \<and> allocates 100 ((nat 2 + 1) div 2)"
    by (simp add: allocates_def max_numel_def)
  from positional_encoding_table[of 2 2 100, THEN conjunct1, rule_format, OF h] obtain t where
    t: "pe_table 100 2 2 = Inr t" "shape t = [nat 2, nat 2]"
    and s: "\<forall>pos<nat 2. \<forall>i. 2 * i < nat 2 \<longrightarrow>
            elem t [pos, 2 * i] = Fin (sin (real pos / 10000 powr (real (2 * i) / real_of_int 2)))"
    and c: "\<forall>pos<nat 2. \<forall>i. 2 * i + 1 < nat 2 \<longrightarrow>
            elem t [pos, 2 * i + 1] = Fin (cos (real pos / 10000 powr (real (2 * i) / real_of_int 2)))"
    by (elim exE conjE) blast
  have "elem t [1, 0] = Fin (sin 1)" "elem t [0, 0] = Fin 0"
    using s[rule_format, of 1 0] s[rule_format, of 0 0] by simp_all
  moreover have "elem t [1, 1] = Fin (cos 1)" "elem t [0, 1] = Fin 1"
    using c[rule_format, of 1 0] c[rule_format, of 0 0] by simp_all
  ultimately have first: "\<exists>t. pe_table 100 2 2 = Inr t \<and> shape t = [2, 2]
      \<and> elem t [1, 0] = Fin (sin 1) \<and> elem t [1, 1] = Fin (cos 1)
      \<and> elem t [0, 0] = Fin 0 \<and> elem t [0, 1] = Fin 1"
    using t by simp
  have second: "\<exists>e. PositionalEncoding_init 100 3 10 = Inl e"
    using positional_encoding_table[of 10 3 100, THEN conjunct2] by simp
  have "\<not> allocates mem (nat (2 ^ 62) * nat 2)" for mem
    by (simp add: allocates_def max_numel_def)
  then have third: "\<exists>e. PositionalEncoding_init mem 2 (2 ^ 62) = Inl e" for mem
    using positional_encoding_table[of "2 ^ 62" 2 mem, THEN conjunct2] by blast
  show ?thesis using first second third by blast
qed

lemmas pe_eval = PositionalEncoding_init_def pe_table_def pe_sin_def bindE_def zeros_def full_def arange_def
   unsqueeze_def wrap_dim_def rank_def py_truediv_def mul_scalar_def tmap_def broadcast_op_def broadcast_shapes_def
   setitem_cols_def slice_len_def expandable_def broadcast_index_def Let_def allocates_def max_numel_def

text \<open>
  Claim C3 as stated fails: with \<open>d_model = 3\<close> the constructor raises and builds no table,
  whatever the machine holds.
\<close>

theorem positional_encoding_table_counterexample:
  "\<forall>mem. pe_table mem 3 10 = Inl RuntimeError \<and> PositionalEncoding_init mem 3 10 = Inl RuntimeError"
proof
  fix mem
  have od: "odd (3::int)" "(3::int) \<le> 3" "(0::int) \<le> 10" "(0::int) < 3" by simp_all
  show "pe_table mem 3 10 = Inl RuntimeError \<and> PositionalEncoding_init mem 3 10 = Inl RuntimeError"
  proof (cases "allocates mem (nat 10 * nat 3) \<and> allocates mem ((nat 3 + 1) div 2)")
    case True
    then have "pe_table mem 3 10 = Inl RuntimeError"
      using pe_table_odd[OF od(3) od(1) od(2)] by blast
    then show ?thesis by (simp add: PositionalEncoding_init_def)
  next
    case False
    then have "pe_sin mem 3 10 = Inl RuntimeError"
      by (intro pe_sin_no_storage) auto
    then show ?thesis by (simp add: PositionalEncoding_init_def pe_table_def)
  qed
qed

text \<open>
  Claim C10, amended. For every odd \<open>d_model \<ge> 3\<close> the constructor raises
  \<^verbatim>\<open>RuntimeError\<close>, for every \<open>max_seq_length\<close> and on every machine; when
  \<open>max_seq_length \<ge> 0\<close> and the tensors can be allocated, everything up to and including
  the sine assignment succeeds, so the error is raised by the cosine assignment. For
  \<open>d_model = 1\<close> the constructor succeeds exactly when \<open>max_seq_length \<ge> 0\<close> and the table
  of \<open>max_seq_length\<close> elements and the one frequency can be allocated.
\<close>

theorem positional_encoding_odd:
  assumes "odd d" "1 \<le> d"
  shows "(3 \<le> d \<longrightarrow> PositionalEncoding_init mem d L = Inl RuntimeError
            \<and> (0 \<le> L \<and> allocates mem (nat L * nat d) \<and> allocates mem ((nat d + 1) div 2) \<longrightarrow>
                 (\<exists>r. pe_sin mem d L = Inr r)))
       \<and> (d = 1 \<longrightarrow> ((\<exists>P. PositionalEncoding_init mem d L = Inr P) \<longleftrightarrow>
                        0 \<le> L \<and> allocates mem (nat L) \<and> allocates mem 1))"
proof (rule conjI; rule impI)
  assume d3: "3 \<le> d"
  then have dpos: "0 < d" by simp
  show "PositionalEncoding_init mem d L = Inl RuntimeError
            \<and> (0 \<le> L \<and> allocates mem (nat L * nat d) \<and> allocates mem ((nat d + 1) div 2) \<longrightarrow>
                 (\<exists>r. pe_sin mem d L = Inr r))"
  proof (cases "0 \<le> L \<and> allocates mem (nat L * nat d) \<and> allocates mem ((nat d + 1) div 2)")
    case True
    then have t: "0 \<le> L" "allocates mem (nat L * nat d)" "allocates mem ((nat d + 1) div 2)"
      by simp_all
    from pe_table_odd[OF t(1) assms(1) d3 t(2,3)] show ?thesis
      by (simp add: PositionalEncoding_init_def)
  next
    case False
    then have "pe_sin mem d L = Inl RuntimeError"
      by (intro pe_sin_no_storage[OF dpos]) auto
    then show ?thesis using False by (simp add: PositionalEncoding_init_def pe_table_def)
  qed
next
  assume d1: "d = 1"
  show "(\<exists>P. PositionalEncoding_init mem d L = Inr P) \<longleftrightarrow>
          0 \<le> L \<and> allocates mem (nat L) \<and> allocates mem 1"
  proof
    assume "\<exists>P. PositionalEncoding_init mem d L = Inr P"
    then obtain P where "PositionalEncoding_init mem d L = Inr P" by blast
    from init_Inr[OF this] show "0 \<le> L \<and> allocates mem (nat L) \<and> allocates mem 1"
      using d1 by simp
  next
    assume "0 \<le> L \<and> allocates mem (nat L) \<and> allocates mem 1"
    then have "0 \<le> L" "0 < d" "allocates mem (nat L * nat d)" "allocates mem ((nat d + 1) div 2)"
        "even d \<or> d = 1"
      using d1 by simp_all
    from init_ok[OF this] show "\<exists>P. PositionalEncoding_init mem d L = Inr P" by blast
  qed
qed

text \<open>
  The theorem at \<open>d_model = 3\<close>, \<open>max_seq_length = 5\<close> and at \<open>d_model = 1\<close>,
  \<open>max_seq_length = 5000\<close>, on a machine that holds 10000 elements.
\<close>

theorem positional_encoding_odd_witness:
  "odd (3::int) \<and> PositionalEncoding_init 10000 3 5 = Inl RuntimeError \<and> (\<exists>r. pe_sin 10000 3 5 = Inr r)
   \<and> (\<exists>P. PositionalEncoding_init 10000 1 5000 = Inr P)
   \<and> (\<nexists>P. PositionalEncoding_init 10000 1 (- 1) = Inr P)"
  using positional_encoding_odd[of 3 10000 5] positional_encoding_odd[of 1 10000 5000]
    positional_encoding_odd[of 1 10000 "- 1"]
  by (simp add: allocates_def max_numel_def)

text \<open>
  Claim C10 as stated fails at the odd \<open>d_model = 1\<close>: the cosine tensor has one column
  and the destination none, and a size 1 expands to a size 0, so the constructor succeeds.
\<close>

theorem positional_encoding_odd_counterexample:
  "odd (1::int) \<and> (\<exists>P. PositionalEncoding_init 10000 1 5000 = Inr P)"
  by (simp add: pe_eval)

lemma nn_Linear_square:
  "nn_Linear mem d d init =
     (if d < 0 \<or> \<not> allocates mem (nat d * nat d) then Inl RuntimeError
      else Inr \<lparr>in_features = nat d, out_features = nat d, weight = fst init, bias = snd init\<rparr>)"
proof -
  have "allocates mem (nat d)" if "allocates mem (nat d * nat d)"
  proof -
    have "nat d \<le> nat d * nat d" by (cases "nat d") simp_all
    then show ?thesis using allocates_mono[OF that] by simp
  qed
  then show ?thesis by (auto simp: nn_Linear_def)
qed

text \<open>
  Claim C8, amended. The constructor raises exactly in these cases, and always at
  construction (no instance exists then on which a forward pass could run):
  \<open>num_heads = 0\<close>, the division error of \<open>%\<close>; a remainder of \<open>d_model % num_heads\<close> other
  than 0, the assertion error; a negative \<open>d_model\<close> or parameter matrices of
  \<open>d_model \<times> d_model\<close> elements that the machine cannot allocate, the error of
  \<^verbatim>\<open>nn.Linear\<close>; a dropout probability outside \<open>[0, 1]\<close>, the error of \<^verbatim>\<open>nn.Dropout\<close>.
\<close>

theorem mha_init_raises:
  "((\<exists>e. MultiHeadAttention_init mem d h p iq ik iv io = Inl e) \<longleftrightarrow>
      (h = 0 \<or> d mod h \<noteq> 0 \<or> d < 0 \<or> \<not> allocates mem (nat d * nat d) \<or> p < 0 \<or> 1 < p))
   \<and> (h = 0 \<longrightarrow> MultiHeadAttention_init mem d h p iq ik iv io = Inl ZeroDivisionError)
   \<and> (h \<noteq> 0 \<and> d mod h \<noteq> 0 \<longrightarrow> MultiHeadAttention_init mem d h p iq ik iv io = Inl AssertionError)
   \<and> (h \<noteq> 0 \<and> d mod h = 0 \<and> (d < 0 \<or> \<not> allocates mem (nat d * nat d)) \<longrightarrow>
        MultiHeadAttention_init mem d h p iq ik iv io = Inl RuntimeError)
   \<and> (h \<noteq> 0 \<and> d mod h = 0 \<and> 0 \<le> d \<and> allocates mem (nat d * nat d) \<and> (p < 0 \<or> 1 < p) \<longrightarrow>
        MultiHeadAttention_init mem d h p iq ik iv io = Inl ValueError)"
  by (auto simp: MultiHeadAttention_init_def bindE_def py_mod_def py_floordiv_def nn_Linear_square
      nn_Dropout_def)

text \<open>
  The theorem at \<open>(7, 2)\<close> and \<open>(7, 0)\<close>, which raise, and at \<open>(8, 2)\<close>, which does not, on a
  machine that holds 1000 elements; at \<open>(2 ^ 31, 2 ^ 31)\<close>, which raises on every machine;
  and at \<open>(8, 2)\<close> with the dropout probability 2.
\<close>

theorem mha_init_raises_witness:
  "MultiHeadAttention_init 1000 7 2 (1/10) (\<lambda>r c. 0, \<lambda>r. 0) (\<lambda>r c. 0, \<lambda>r. 0) (\<lambda>r c. 0, \<lambda>r. 0) (\<lambda>r c. 0, \<lambda>r. 0)
     = Inl AssertionError
   \<and> MultiHeadAttention_init 1000 7 0 (1/10) (\<lambda>r c. 0, \<lambda>r. 0) (\<lambda>r c. 0, \<lambda>r. 0) (\<lambda>r c. 0, \<lambda>r. 0) (\<lambda>r c. 0, \<lambda>r. 0)
     = Inl ZeroDivisionError
   \<and> (\<nexists>e. MultiHeadAttention_init 1000 8 2 (1/10) (\<lambda>r c. 0, \<lambda>r. 0) (\<lambda>r c. 0, \<lambda>r. 0) (\<lambda>r c. 0, \<lambda>r. 0) (\<lambda>r c. 0, \<lambda>r. 0)
     = Inl e)
   \<and> (\<forall>mem. MultiHeadAttention_init mem (2 ^ 31) (2 ^ 31) (1/10) (\<lambda>r c. 0, \<lambda>r. 0) (\<lambda>r c. 0, \<lambda>r. 0) (\<lambda>r c. 0, \<lambda>r. 0) (\<lambda>r c. 0, \<lambda>r. 0)
     = Inl RuntimeError)
   \<and> MultiHeadAttention_init 1000 8 2 2 (\<lambda>r c. 0, \<lambda>r. 0) (\<lambda>r c. 0, \<lambda>r. 0) (\<lambda>r c. 0, \<lambda>r. 0) (\<lambda>r c. 0, \<lambda>r. 0)
     = Inl ValueError"
proof -
  let ?i = "(\<lambda>r c. 0::real, \<lambda>r. 0::real)"
  have a: "MultiHeadAttention_init 1000 7 2 (1/10) ?i ?i ?i ?i = Inl AssertionError"
    using mha_init_raises[of 1000 7 2 "1/10" ?i ?i ?i ?i] by simp
  have b: "MultiHeadAttention_init 1000 7 0 (1/10) ?i ?i ?i ?i = Inl ZeroDivisionError"
    using mha_init_raises[of 1000 7 0 "1/10" ?i ?i ?i ?i] by simp
  have c: "\<nexists>e. MultiHeadAttention_init 1000 8 2 (1/10) ?i ?i ?i ?i = Inl e"
    using mha_init_raises[of 1000 8 2 "1/10" ?i ?i ?i ?i] by (simp add: allocates_def max_numel_def)
  have d: "MultiHeadAttention_init mem (2 ^ 31) (2 ^ 31) (1/10) ?i ?i ?i ?i = Inl RuntimeError" for mem
    using mha_init_raises[of mem "2 ^ 31" "2 ^ 31" "1/10" ?i ?i ?i ?i]
    by (simp add: allocates_def max_numel_def)
  have e: "MultiHeadAttention_init 1000 8 2 2 ?i ?i ?i ?i = Inl ValueError"
    using mha_init_raises[of 1000 8 2 2 ?i ?i ?i ?i] by (simp add: allocates_def max_numel_def)
  show ?thesis using a b c d e by blast
qed

text \<open>
  Claim C8 as stated fails: \<open>d_model = -4\<close> is divisible by \<open>num_heads = 2\<close>, the assertion
  passes, and the constructor raises in \<^verbatim>\<open>nn.Linear\<close>.
\<close>

theorem mha_init_raises_counterexample:
  "MultiHeadAttention_init 1000 (-4) 2 (1/10) (\<lambda>r c. 0, \<lambda>r. 0) (\<lambda>r c. 0, \<lambda>r. 0) (\<lambda>r c. 0, \<lambda>r. 0) (\<lambda>r c. 0, \<lambda>r. 0)
     = Inl RuntimeError \<and> (2::int) dvd - 4 \<and> (- 4::int) mod 2 = 0"
  by (simp add: MultiHeadAttention_init_def bindE_def py_mod_def py_floordiv_def nn_Linear_def nn_Dropout_def)

text \<open>
  The theorem at \<open>d_model = 2\<close>, \<open>max_seq_length = 3\<close>, built on a machine that holds 100
  elements, with \<open>S = 2\<close> and with \<open>S = 5\<close>.
\<close>

theorem positional_encoding_forward_witness:
  "\<exists>P y. PositionalEncoding_init 100 2 3 = Inr P
     \<and> PositionalEncoding_forward P \<lparr>shape = [1, 2, 2], elem = (\<lambda>idx. Fin 1)\<rparr> = Inr y
     \<and> shape y = [1, 2, 2] \<and> elem y [0, 1, 0] = fl_add (Fin 1) (elem (pe P) [0, 1, 0])
     \<and> PositionalEncoding_forward P \<lparr>shape = [1, 5, 2], elem = (\<lambda>idx. Fin 1)\<rparr> = Inl RuntimeError"
proof -
  obtain P where P: "PositionalEncoding_init 100 2 3 = Inr P"
    using init_ok[of 3 2 100] by (auto simp: allocates_def max_numel_def)
  let ?x = "\<lparr>shape = [1, 2, 2], elem = (\<lambda>idx. Fin 1)\<rparr>"
  let ?x5 = "\<lparr>shape = [1, 5, 2], elem = (\<lambda>idx. Fin 1)\<rparr>"
  have sx: "shape ?x = [1, 2, nat 2]" and sx5: "shape ?x5 = [1, 5, nat 2]" by simp_all
  from positional_encoding_forward[OF P sx] obtain y where
    y: "PositionalEncoding_forward P ?x = Inr y" "shape y = [1, 2, nat 2]"
    "\<forall>b<1. \<forall>i<2. \<forall>k<nat 2. elem y [b, i, k] = fl_add (elem ?x [b, i, k]) (elem (pe P) [0, i, k])"
    by auto
  have "elem y [0, 1, 0] = fl_add (Fin 1) (elem (pe P) [0, 1, 0])"
    using y(3)[rule_format, of 0 1 0] by simp
  moreover have "PositionalEncoding_forward P ?x5 = Inl RuntimeError"
    using positional_encoding_forward[OF P sx5] by simp
  ultimately show ?thesis using P y(1,2) by simp
qed

text \<open>
  Claim C9 as stated fails: with \<open>max_seq_length = 1\<close> and \<open>S = 2\<close> the single row of the
  table is broadcast over both positions and \<open>forward\<close> returns.
\<close>

theorem positional_encoding_forward_counterexample:
  "\<exists>P y. PositionalEncoding_init 100 2 1 = Inr P
     \<and> PositionalEncoding_forward P \<lparr>shape = [1, 2, 2], elem = (\<lambda>idx. Fin 0)\<rparr> = Inr y
     \<and> shape y = [1, 2, 2]"
proof -
  obtain P where P: "PositionalEncoding_init 100 2 1 = Inr P"
    using init_ok[of 1 2 100] by (auto simp: allocates_def max_numel_def)
  from init_Inr[OF P] have shp: "shape (pe P) = [1, 1, 2]" by auto
  let ?x = "\<lparr>shape = [1, 2, 2], elem = (\<lambda>idx. Fin 0)\<rparr>"
  have "PositionalEncoding_forward P ?x =
     tensor_add ?x \<lparr>shape = [1, 1, 2], elem = elem (pe P)\<rparr>"
    using forward_unfold[of ?x 1 2 2 P] shp by (simp add: slice_dim1_to_def rank_def)
  then show ?thesis using P
    by (simp add: tensor_add_def broadcast_op_def broadcast_shapes_def)
qed

lemma swap_last2_4: "swap 2 3 [a, b, c, d] = [a, b, d, c]"
  by (simp add: swap_def numeral_3_eq_3 numeral_2_eq_2)

lemma transpose_last2_4:
  assumes "shape t = [B, H, n, m]"
  shows "transpose_dims (-2) (-1) t = Inr \<lparr>shape = [B, H, m, n], elem = (\<lambda>idx. elem t (swap 2 3 idx))\<rparr>"
  using assms by (simp add: transpose_dims_def wrap_dim_def rank_def swap_last2_4)

lemma valid_index_4: "valid_index [B, H, n, m] [b, h, i, j] = (b < B \<and> h < H \<and> i < n \<and> j < m)"
  by (simp add: valid_index_def)

lemma valid_index_2: "valid_index [B, H] [b, h] = (b < B \<and> h < H)"
  by (simp add: valid_index_def)

lemma matmul_4:
  assumes "shape a = [B, H, n, m]" "shape b = [B, H, m, p]"
  shows "\<exists>r. matmul a b = Inr r \<and> shape r = [B, H, n, p] \<and>
     (\<forall>bi<B. \<forall>h<H. \<forall>i j. elem r [bi, h, i, j] =
        fl_sum (map (\<lambda>c. fl_mul (elem a [bi, h, i, c]) (elem b [bi, h, c, j])) [0..<m]))"
proof -
  have bi: "broadcast_index [B, H] [bi, h] = [bi, h]" if "bi < B" "h < H" for bi h
    using that by (intro valid_broadcast_index) (simp add: valid_index_2)
  show ?thesis
    using assms by (simp add: matmul_def rank_def Let_def broadcast_shapes_same bi numeral_3_eq_3)
qed


lemma attention_scores_4:
  assumes "shape Q = [B, H, Lq, dk]" "shape K = [B, H, Lk, dk]"
  shows "\<exists>s. attention_scores (int dk) Q K = Inr s \<and> shape s = [B, H, Lq, Lk] \<and>
     (\<forall>b<B. \<forall>h<H. \<forall>i j. elem s [b, h, i, j] =
        fl_div (fl_sum (map (\<lambda>c. fl_mul (elem Q [b, h, i, c]) (elem K [b, h, j, c])) [0..<dk]))
               (Fin (sqrt (real dk))))"
proof -
  let ?Kt = "\<lparr>shape = [B, H, dk, Lk], elem = (\<lambda>idx. elem K (swap 2 3 idx))\<rparr>"
  have kt: "transpose_dims (-2) (-1) K = Inr ?Kt" using assms(2) by (rule transpose_last2_4)
  have "shape ?Kt = [B, H, dk, Lk]" by simp
  from matmul_4[OF assms(1) this] obtain r where r: "matmul Q ?Kt = Inr r" "shape r = [B, H, Lq, Lk]"
    "\<forall>bi<B. \<forall>h<H. \<forall>i j. elem r [bi, h, i, j] =
        fl_sum (map (\<lambda>c. fl_mul (elem Q [bi, h, i, c]) (elem ?Kt [bi, h, c, j])) [0..<dk])"
    by (elim exE conjE)
  have "attention_scores (int dk) Q K = Inr (div_scalar r (sqrt (real dk)))"
    using kt r(1) by (simp add: attention_scores_def math_sqrt_def)
  then show ?thesis using r(2,3) by (simp add: div_scalar_def tmap_def swap_last2_4)
qed

lemma masked_fill_expand:
  assumes "expandable (shape m) (shape s)"
  shows "\<exists>r. masked_fill s (eq_zero m) NegInf = Inr r \<and> shape r = shape s \<and>
     (\<forall>idx. valid_index (shape s) idx \<longrightarrow>
        elem r idx = (if \<not> mask_entry m idx then NegInf else elem s idx))"
  using expandable_broadcast[OF assms]
  by (simp add: masked_fill_def broadcast_op_def eq_zero_def tmap_def mask_entry_def valid_broadcast_index)

lemma row_of_4:
  assumes "shape t = [B, H, n, m]"
  shows "row_of t [b, h, i, j] = map (\<lambda>k. elem t [b, h, i, k]) [0..<m]"
  using assms by (simp add: row_of_def rank_def)

text \<open>The masked scores and the weights of a rank-4 score tensor.\<close>

lemma attention_weights_4:
  assumes "shape s = [B, H, Lq, Lk]"
    and "case msk of None \<Rightarrow> True | Some m \<Rightarrow> expandable (shape m) [B, H, Lq, Lk]"
  shows "\<exists>w. attention_weights s msk = Inr w \<and> shape w = [B, H, Lq, Lk] \<and>
     (\<forall>b<B. \<forall>h<H. \<forall>i<Lq. \<forall>j<Lk. elem w [b, h, i, j] =
        softmax_row (map (\<lambda>k. if (case msk of None \<Rightarrow> False | Some m \<Rightarrow> \<not> mask_entry m [b, h, i, k])
                                 then NegInf else elem s [b, h, i, k]) [0..<Lk])
           (if (case msk of None \<Rightarrow> False | Some m \<Rightarrow> \<not> mask_entry m [b, h, i, j])
            then NegInf else elem s [b, h, i, j]))"
proof (cases msk)
  case None
  then show ?thesis using assms(1) by (simp add: attention_weights_def softmax_def row_of_4)
next
  case (Some m)
  then have "expandable (shape m) (shape s)" using assms by simp
  from masked_fill_expand[OF this] obtain r where r: "masked_fill s (eq_zero m) NegInf = Inr r"
    "shape r = shape s"
    "\<forall>idx. valid_index (shape s) idx \<longrightarrow>
        elem r idx = (if \<not> mask_entry m idx then NegInf else elem s idx)"
    by (elim exE conjE)
  have shr: "shape r = [B, H, Lq, Lk]" using r(2) assms(1) by simp
  have er: "elem r [b, h, i, j] = (if \<not> mask_entry m [b, h, i, j] then NegInf else elem s [b, h, i, j])"
    if "b < B" "h < H" "i < Lq" "j < Lk" for b h i j
    using r(3)[rule_format, of "[b, h, i, j]"] that assms(1) by (simp add: valid_index_4)
  have "attention_weights s msk = Inr (softmax r)"
    using Some r(1) by (simp add: attention_weights_def)
  moreover have "elem (softmax r) [b, h, i, j] =
        softmax_row (map (\<lambda>k. if \<not> mask_entry m [b, h, i, k] then NegInf else elem s [b, h, i, k]) [0..<Lk])
           (if \<not> mask_entry m [b, h, i, j] then NegInf else elem s [b, h, i, j])"
    if "b < B" "h < H" "i < Lq" "j < Lk" for b h i j
  proof -
    have meq: "map (\<lambda>k. elem r [b, h, i, k]) [0..<Lk] =
          map (\<lambda>k. if \<not> mask_entry m [b, h, i, k] then NegInf else elem s [b, h, i, k]) [0..<Lk]"
      using er that by simp
    have "elem (softmax r) [b, h, i, j] =
        softmax_row (map (\<lambda>k. elem r [b, h, i, k]) [0..<Lk]) (elem r [b, h, i, j])"
      by (simp add: softmax_def row_of_4[OF shr])
    then show ?thesis by (simp only: meq er[OF that])
  qed
  ultimately show ?thesis using Some shr by (simp add: softmax_def)
qed

text \<open>Rows whose entries are finite or minus infinity, as masking leaves them.\<close>

lemma fl_sum_Fin: "fl_sum (map (\<lambda>x. Fin (f x)) xs) = Fin (sum_list (map f xs))"
  by (induction xs) simp_all

lemma sum_list_div_const: "sum_list (map (\<lambda>x. f x / c) xs) = sum_list (map f xs) / (c::real)"
  by (induction xs) (simp_all add: add_divide_distrib)

lemma fl_max_list_masked:
  assumes "\<forall>x\<in>set row. x = NegInf \<or> (\<exists>r. x = Fin r)"
  shows "fl_max_list row = NegInf \<and> (\<forall>x\<in>set row. x = NegInf) \<or> (\<exists>u. fl_max_list row = Fin u)"
  using assms
proof (induction row)
  case Nil
  then show ?case by (simp add: fl_max_list_def)
next
  case (Cons x row)
  then have ih: "fl_max_list row = NegInf \<and> (\<forall>x\<in>set row. x = NegInf) \<or> (\<exists>u. fl_max_list row = Fin u)"
    by simp
  have x: "x = NegInf \<or> (\<exists>r. x = Fin r)" using Cons.prems by simp
  have step: "fl_max_list (x # row) = fl_max x (fl_max_list row)" by (simp add: fl_max_list_def)
  show ?case using ih x by (auto simp: step)
qed

lemma softmax_row_masked:
  assumes "\<forall>x\<in>set row. x = NegInf \<or> (\<exists>r. x = Fin r)" "\<exists>r. Fin r \<in> set row"
  shows "fl_sum (map (softmax_row row) row) = Fin 1 \<and> softmax_row row NegInf = Fin 0"
proof -
  obtain u where u: "fl_max_list row = Fin u"
    using fl_max_list_masked[OF assms(1)] assms(2) by auto
  define e where "e = (\<lambda>x. case x of Fin r \<Rightarrow> exp (r - u) | _ \<Rightarrow> 0)"
  have expo: "fl_exp (fl_sub x (Fin u)) = Fin (e x)" if "x = NegInf \<or> (\<exists>r. x = Fin r)" for x
    using that by (auto simp: fl_sub_def e_def)
  have "map (\<lambda>y. fl_exp (fl_sub y (Fin u))) row = map (\<lambda>y. Fin (e y)) row"
    using assms(1) expo by simp
  then have total: "fl_sum (map (\<lambda>y. fl_exp (fl_sub y (Fin u))) row) = Fin (sum_list (map e row))"
    by (simp only: fl_sum_Fin)
  have nonneg: "0 \<le> e x" for x by (simp add: e_def split: fl.split)
  obtain r where r: "Fin r \<in> set row" using assms(2) by blast
  have "0 < e (Fin r)" by (simp add: e_def)
  moreover have "e (Fin r) \<le> sum_list (map e row)"
    using r nonneg by (intro member_le_sum_list) auto
  ultimately have pos: "0 < sum_list (map e row)" by linarith
  have w: "softmax_row row x = Fin (e x / sum_list (map e row))" if "x = NegInf \<or> (\<exists>r. x = Fin r)" for x
    using expo[OF that] total pos by (simp add: softmax_row_def u)
  have "map (softmax_row row) row = map (\<lambda>x. Fin (e x / sum_list (map e row))) row"
    using assms(1) w by simp
  then have "fl_sum (map (softmax_row row) row) = Fin (sum_list (map (\<lambda>x. e x / sum_list (map e row)) row))"
    by (simp only: fl_sum_Fin)
  also have "sum_list (map (\<lambda>x. e x / sum_list (map e row)) row) = sum_list (map e row) / sum_list (map e row)"
    by (rule sum_list_div_const)
  also have "\<dots> = 1" using pos by simp
  finally have one: "fl_sum (map (softmax_row row) row) = Fin 1" .
  have "softmax_row row NegInf = Fin 0" using w[of NegInf] by (simp add: e_def)
  with one show ?thesis by simp
qed

text \<open>A row that is masked entirely has NaN weights.\<close>

lemma softmax_row_all_masked:
  assumes "row \<noteq> []" "\<forall>x\<in>set row. x = NegInf"
  shows "softmax_row row NegInf = NaN"
proof -
  have "fl_max_list row = NegInf" using assms(2)
    by (induction row) (simp_all add: fl_max_list_def)
  then show ?thesis by (simp add: softmax_row_def fl_sub_def)
qed

lemma dropout_elem: "elem (dropout p md keep t) idx = dropout_value p md (keep idx) (elem t idx)"
  and dropout_shape: "shape (dropout p md keep t) = shape t"
  by (simp_all add: dropout_def)

lemma tmap_elem: "elem (tmap f t) idx = f (elem t idx)"
  and tmap_shape: "shape (tmap f t) = shape t"
  by (simp_all add: tmap_def)

lemma sdpa_char:
  assumes "shape Q = [B, H, Lq, dk]" "shape K = [B, H, Lk, dk]" "shape V = [B, H, Lk, dk]"
    and "mha_d_k self = int dk"
    and "case msk of None \<Rightarrow> True | Some m \<Rightarrow> expandable (shape m) [B, H, Lq, Lk]"
  shows "\<exists>out. scaled_dot_product_attention self md keep Q K V msk = Inr out
      \<and> shape out = [B, H, Lq, dk]
      \<and> (\<forall>b<B. \<forall>h<H. \<forall>i<Lq. \<forall>c<dk. elem out [b, h, i, c] =
            spec_attention (attn_dropout self) md keep dk Lk Q K V msk b h i c)"
proof -
  let ?masked = "\<lambda>b h i k. case msk of None \<Rightarrow> False | Some m \<Rightarrow> \<not> mask_entry m [b, h, i, k]"
  obtain s where s: "attention_scores (int dk) Q K = Inr s" "shape s = [B, H, Lq, Lk]"
    "\<forall>b<B. \<forall>h<H. \<forall>i j. elem s [b, h, i, j] =
        fl_div (fl_sum (map (\<lambda>c. fl_mul (elem Q [b, h, i, c]) (elem K [b, h, j, c])) [0..<dk]))
               (Fin (sqrt (real dk)))"
    using attention_scores_4[OF assms(1,2)] by (elim exE conjE)
  obtain w where w: "attention_weights s msk = Inr w" "shape w = [B, H, Lq, Lk]"
    "\<forall>b<B. \<forall>h<H. \<forall>i<Lq. \<forall>j<Lk. elem w [b, h, i, j] =
        softmax_row (map (\<lambda>k. if ?masked b h i k then NegInf else elem s [b, h, i, k]) [0..<Lk])
           (if ?masked b h i j then NegInf else elem s [b, h, i, j])"
    using attention_weights_4[OF s(2) assms(5)] by (elim exE conjE)
  let ?d = "dropout (attn_dropout self) md keep w"
  have shd: "shape ?d = [B, H, Lq, Lk]" using w(2) by (simp add: dropout_shape)
  obtain out where out: "matmul ?d V = Inr out" "shape out = [B, H, Lq, dk]"
    "\<forall>b<B. \<forall>h<H. \<forall>i c. elem out [b, h, i, c] =
        fl_sum (map (\<lambda>j. fl_mul (elem ?d [b, h, i, j]) (elem V [b, h, j, c])) [0..<Lk])"
    using matmul_4[OF shd assms(3)] by (elim exE conjE)
  have run: "scaled_dot_product_attention self md keep Q K V msk = Inr out"
    using s(1) w(1) out(1) assms(4) by (simp add: scaled_dot_product_attention_def)
  have sc: "(if ?masked b h i k then NegInf else elem s [b, h, i, k]) = spec_score dk Q K msk b h i k"
    if "b < B" "h < H" for b h i k
    using s(3)[rule_format, OF that, of i k] by (simp add: spec_score_def)
  have wt: "elem ?d [b, h, i, j] = spec_weight (attn_dropout self) md keep dk Lk Q K msk b h i j"
    if "b < B" "h < H" "i < Lq" "j < Lk" for b h i j
  proof -
    have "map (\<lambda>k. if ?masked b h i k then NegInf else elem s [b, h, i, k]) [0..<Lk] =
          map (spec_score dk Q K msk b h i) [0..<Lk]"
      using sc[OF that(1,2)] by simp
    then have "elem w [b, h, i, j] =
       softmax_row (map (spec_score dk Q K msk b h i) [0..<Lk]) (spec_score dk Q K msk b h i j)"
      using w(3)[rule_format, OF that] sc[OF that(1,2), of i j] by (simp only:)
    then show ?thesis by (simp add: dropout_elem spec_weight_def)
  qed
  have "elem out [b, h, i, c] = spec_attention (attn_dropout self) md keep dk Lk Q K V msk b h i c"
    if "b < B" "h < H" "i < Lq" for b h i c
  proof -
    have "map (\<lambda>j. fl_mul (elem ?d [b, h, i, j]) (elem V [b, h, j, c])) [0..<Lk] =
          map (\<lambda>j. fl_mul (spec_weight (attn_dropout self) md keep dk Lk Q K msk b h i j) (elem V [b, h, j, c])) [0..<Lk]"
      using wt[OF that] by simp
    then show ?thesis using out(3)[rule_format, OF that(1,2), of i c]
      by (simp only: spec_attention_def)
  qed
  then show ?thesis using run out(2) by simp
qed

text \<open>
  Claim C1. For \<open>Q\<close>, \<open>K\<close>, \<open>V\<close> of shapes \<open>[B, H, Lq, d_k]\<close>, \<open>[B, H, Lk, d_k]\<close>,
  \<open>[B, H, Lk, d_k]\<close> and an optional mask that expands to \<open>[B, H, Lq, Lk]\<close>,
  \<open>scaled_dot_product_attention\<close> returns a tensor of shape \<open>[B, H, Lq, d_k]\<close> whose entries
  are those of the specification: softmax of the scaled and masked scores, dropout on
  the weights, then the product with \<open>V\<close>.
\<close>

theorem sdpa_formula:
  assumes "shape Q = [B, H, Lq, dk]" "shape K = [B, H, Lk, dk]" "shape V = [B, H, Lk, dk]"
    and "mha_d_k self = int dk"
    and "case msk of None \<Rightarrow> True | Some m \<Rightarrow> expandable (shape m) [B, H, Lq, Lk]"
  shows "\<exists>out. scaled_dot_product_attention self md keep Q K V msk = Inr out
      \<and> shape out = [B, H, Lq, dk]
      \<and> (\<forall>b<B. \<forall>h<H. \<forall>i<Lq. \<forall>c<dk. elem out [b, h, i, c] =
            spec_attention (attn_dropout self) md keep dk Lk Q K V msk b h i c)"
  using sdpa_char[OF assms] .

lemma is_fin_iff: "is_fin x = (\<exists>r. x = Fin r)"
  by (cases x) simp_all

text \<open>
  Claim C6, amended. For a query row whose scores at the attendable keys are finite
  numbers and whose mask row leaves a key attendable (without a mask: a row with a key
  and finite scores), the weights that the softmax of \<open>scaled_dot_product_attention\<close>
  produces sum to 1 along the keys. The sum is exact here: finite values are real numbers,
  rounding is not modelled.
\<close>

theorem attention_weights_sum:
  assumes "shape sc = [B, H, Lq, Lk]" "b < B" "h < H" "i < Lq"
    and "case msk of None \<Rightarrow> 0 < Lk
         | Some m \<Rightarrow> expandable (shape m) [B, H, Lq, Lk] \<and> row_has_valid_key m [b, h, i] Lk"
    and "\<forall>k<Lk. (case msk of None \<Rightarrow> True | Some m \<Rightarrow> mask_entry m [b, h, i, k]) \<longrightarrow>
           is_fin (elem sc [b, h, i, k])"
  shows "\<exists>w. attention_weights sc msk = Inr w \<and> shape w = [B, H, Lq, Lk]
      \<and> fl_sum (map (\<lambda>j. elem w [b, h, i, j]) [0..<Lk]) = Fin 1"
proof -
  let ?masked = "\<lambda>k. case msk of None \<Rightarrow> False | Some m \<Rightarrow> \<not> mask_entry m [b, h, i, k]"
  let ?f = "\<lambda>k. if ?masked k then NegInf else elem sc [b, h, i, k]"
  let ?row = "map ?f [0..<Lk]"
  have ex: "case msk of None \<Rightarrow> True | Some m \<Rightarrow> expandable (shape m) [B, H, Lq, Lk]"
    using assms(5) by (simp split: option.splits)
  obtain w where w: "attention_weights sc msk = Inr w" "shape w = [B, H, Lq, Lk]"
    "\<forall>b<B. \<forall>h<H. \<forall>i<Lq. \<forall>j<Lk. elem w [b, h, i, j] =
        softmax_row (map (\<lambda>k. if (case msk of None \<Rightarrow> False | Some m \<Rightarrow> \<not> mask_entry m [b, h, i, k])
                                 then NegInf else elem sc [b, h, i, k]) [0..<Lk])
           (if (case msk of None \<Rightarrow> False | Some m \<Rightarrow> \<not> mask_entry m [b, h, i, j])
            then NegInf else elem sc [b, h, i, j])"
    using attention_weights_4[OF assms(1) ex] by (elim exE conjE)
  have ew: "elem w [b, h, i, j] = softmax_row ?row (?f j)" if "j < Lk" for j
    using w(3)[rule_format, OF assms(2,3,4) that] .
  have "map (\<lambda>j. elem w [b, h, i, j]) [0..<Lk] = map (\<lambda>j. softmax_row ?row (?f j)) [0..<Lk]"
    using ew by simp
  then have eq: "map (\<lambda>j. elem w [b, h, i, j]) [0..<Lk] = map (softmax_row ?row) ?row"
    by (simp only: map_map o_def)
  have fk: "\<exists>r. elem sc [b, h, i, k] = Fin r" if "k < Lk" "\<not> ?masked k" for k
  proof -
    have "case msk of None \<Rightarrow> True | Some m \<Rightarrow> mask_entry m [b, h, i, k]"
      using that(2) by (simp split: option.splits)
    then show ?thesis using assms(6) that(1) by (simp add: is_fin_iff)
  qed
  have fin: "\<forall>x\<in>set ?row. x = NegInf \<or> (\<exists>r. x = Fin r)"
  proof
    fix x assume "x \<in> set ?row"
    then obtain k where k: "k < Lk" "x = ?f k" by auto
    show "x = NegInf \<or> (\<exists>r. x = Fin r)"
    proof (cases "?masked k")
      case True
      then show ?thesis using k(2) by simp
    next
      case False
      then show ?thesis using fk[OF k(1) False] k(2) by simp
    qed
  qed
  have "\<exists>k<Lk. \<not> ?masked k"
    using assms(5) by (auto simp: row_has_valid_key_def list_ex_upt split: option.splits)
  then obtain k where k: "k < Lk" "\<not> ?masked k" by blast
  from fk[OF k] obtain r where r: "elem sc [b, h, i, k] = Fin r" by blast
  have "?f k \<in> set ?row" using k(1) by simp
  then have "Fin r \<in> set ?row" using k(2) r by simp
  then have "\<exists>r. Fin r \<in> set ?row" by blast
  from softmax_row_masked[OF fin this] have "fl_sum (map (softmax_row ?row) ?row) = Fin 1"
    by (rule conjunct1)
  then have "fl_sum (map (\<lambda>j. elem w [b, h, i, j]) [0..<Lk]) = Fin 1" by (simp only: eq)
  then show ?thesis using w(1,2) by blast
qed

lemma dropout_value_zero: "dropout_value p md kept (Fin 0) = Fin 0"
  by (simp add: dropout_value_def)

lemma dropout_value_nan: "dropout_value p md kept NaN = NaN"
  by (simp add: dropout_value_def)

text \<open>
  Claim C4, amended. The decoder self-attention weights of the query position \<open>i\<close> of a
  target row, under the target mask of \<open>create_mask\<close>. When the row holds a non-pad token
  at or before \<open>i\<close> and the scores of \<open>i\<close> at the non-pad keys up to \<open>i\<close> are finite, the
  weight from \<open>i\<close> to every later key \<open>j\<close> is exactly 0, before and after dropout. When
  all tokens up to \<open>i\<close> are pad, the row is masked entirely and every weight of it is NaN,
  before and after dropout.
\<close>

theorem causal_weight_zero:
  assumes "shape src = [B, S]" "shape tgt = [B, T]" "shape sc = [B, H, T, T]"
    and "b < B" "h < H" "i < T"
  shows "\<exists>sm tm w. create_mask src tgt = Inr (sm, tm)
      \<and> attention_weights sc (Some tm) = Inr w
      \<and> ((\<exists>k\<le>i. elem tgt [b, k] \<noteq> 0)
           \<and> (\<forall>k\<le>i. elem tgt [b, k] \<noteq> 0 \<longrightarrow> is_fin (elem sc [b, h, i, k])) \<longrightarrow>
         (\<forall>j<T. i < j \<longrightarrow> elem w [b, h, i, j] = Fin 0
                   \<and> elem (dropout p md keep w) [b, h, i, j] = Fin 0))
      \<and> ((\<forall>k\<le>i. elem tgt [b, k] = 0) \<longrightarrow>
         (\<forall>j<T. elem w [b, h, i, j] = NaN \<and> elem (dropout p md keep w) [b, h, i, j] = NaN))"
proof -
  obtain sm tm where m: "create_mask src tgt = Inr (sm, tm)" "shape tm = [B, 1, T, T]"
      "\<forall>b<B. \<forall>i<T. \<forall>j<T. elem tm [b, 0, i, j] = (elem tgt [b, j] \<noteq> 0 \<and> j \<le> i)"
    using create_mask_char[OF assms(1,2)] by blast
  have iT: "i < T" using assms(6) .
  have me: "mask_entry tm [b, h, i, k] = (elem tgt [b, k] \<noteq> 0 \<and> k \<le> i)" if "k < T" for k
    using mask_entry_4[OF m(2) assms(4), of i k h] m(3) that assms(4) iT by auto
  let ?f = "\<lambda>k. if \<not> mask_entry tm [b, h, i, k] then NegInf else elem sc [b, h, i, k]"
  let ?row = "map ?f [0..<T]"
  have ex: "case Some tm of None \<Rightarrow> True | Some m \<Rightarrow> expandable (shape m) [B, H, T, T]"
    using m(2) by (simp add: expandable_def)
  obtain w where w: "attention_weights sc (Some tm) = Inr w"
    "\<forall>b<B. \<forall>h<H. \<forall>i<T. \<forall>j<T. elem w [b, h, i, j] =
        softmax_row (map (\<lambda>k. if (case Some tm of None \<Rightarrow> False | Some m \<Rightarrow> \<not> mask_entry m [b, h, i, k])
                                 then NegInf else elem sc [b, h, i, k]) [0..<T])
           (if (case Some tm of None \<Rightarrow> False | Some m \<Rightarrow> \<not> mask_entry m [b, h, i, j])
            then NegInf else elem sc [b, h, i, j])"
    using attention_weights_4[OF assms(3) ex] by (elim exE conjE)
  have ew: "elem w [b, h, i, j] = softmax_row ?row (?f j)" if "j < T" for j
    using w(2)[rule_format, OF assms(4,5) iT that] unfolding option.case .
  have zero: "elem w [b, h, i, j] = Fin 0 \<and> elem (dropout p md keep w) [b, h, i, j] = Fin 0"
    if v: "\<exists>k\<le>i. elem tgt [b, k] \<noteq> 0"
      and f: "\<forall>k\<le>i. elem tgt [b, k] \<noteq> 0 \<longrightarrow> is_fin (elem sc [b, h, i, k])"
      and j: "j < T" "i < j" for j
  proof -
    have "?f j = NegInf" using me[OF j(1)] j(2) by simp
    with ew[OF j(1)] have e: "elem w [b, h, i, j] = softmax_row ?row NegInf" by (simp only:)
    have fk: "?f k = NegInf \<or> (\<exists>r. ?f k = Fin r)" if "k < T" for k
      using me[OF that] f by (auto simp: is_fin_iff)
    have fin: "\<forall>x\<in>set ?row. x = NegInf \<or> (\<exists>r. x = Fin r)"
    proof
      fix x assume "x \<in> set ?row"
      then obtain k where k: "k < T" "x = ?f k" by auto
      show "x = NegInf \<or> (\<exists>r. x = Fin r)" using fk[OF k(1)] k(2) by (simp only:)
    qed
    obtain k where k: "k \<le> i" "elem tgt [b, k] \<noteq> 0" using v by blast
    then have kT: "k < T" using iT by simp
    have mk: "mask_entry tm [b, h, i, k]" using me[OF kT] k by simp
    obtain r where r: "elem sc [b, h, i, k] = Fin r" using f k by (auto simp: is_fin_iff)
    have "?f k \<in> set ?row" using kT by simp
    then have "Fin r \<in> set ?row" using mk r by simp
    then have "\<exists>r. Fin r \<in> set ?row" by blast
    from softmax_row_masked[OF fin this] have "softmax_row ?row NegInf = Fin 0" by (rule conjunct2)
    with e have z: "elem w [b, h, i, j] = Fin 0" by (simp only:)
    then show ?thesis by (simp add: dropout_elem dropout_value_zero)
  qed
  have nan: "elem w [b, h, i, j] = NaN \<and> elem (dropout p md keep w) [b, h, i, j] = NaN"
    if a: "\<forall>k\<le>i. elem tgt [b, k] = 0" and j: "j < T" for j
  proof -
    have fk: "?f k = NegInf" if "k < T" for k using me[OF that] a by auto
    then have all: "\<forall>x\<in>set ?row. x = NegInf" by auto
    have ne: "?row \<noteq> []" using iT by simp
    have "elem w [b, h, i, j] = softmax_row ?row NegInf"
      using ew[OF j] fk[OF j] by (simp only:)
    then have z: "elem w [b, h, i, j] = NaN"
      using softmax_row_all_masked[OF ne all] by (simp only:)
    then show ?thesis by (simp add: dropout_elem dropout_value_nan)
  qed
  show ?thesis using m(1) w(1) zero nan by blast
qed

text \<open>
  The theorem at \<open>tgt = [[3, 3], [0, 0]]\<close>, query 0, in training mode: in the first row the
  weight to key 1 is 0, in the second row, all pad, the weights are NaN.
\<close>

theorem causal_weight_zero_witness:
  "\<exists>sm tm w. create_mask \<lparr>shape = [2, 2], elem = (\<lambda>idx. 5)\<rparr>
                          \<lparr>shape = [2, 2], elem = (\<lambda>idx. if hd idx = 0 then 3 else 0)\<rparr> = Inr (sm, tm)
      \<and> attention_weights \<lparr>shape = [2, 1, 2, 2], elem = (\<lambda>idx. Fin 0)\<rparr> (Some tm) = Inr w
      \<and> elem w [0, 0, 0, 1] = Fin 0
      \<and> elem (dropout (1/10) Train (\<lambda>idx. True) w) [0, 0, 0, 1] = Fin 0
      \<and> elem w [1, 0, 0, 0] = NaN \<and> elem w [1, 0, 0, 1] = NaN"
proof -
  let ?src = "\<lparr>shape = [2, 2], elem = (\<lambda>idx. 5::int)\<rparr>"
  let ?tgt = "\<lparr>shape = [2, 2], elem = (\<lambda>idx. if hd idx = (0::nat) then 3 else (0::int))\<rparr>"
  let ?s = "\<lparr>shape = [2, 1, 2, 2], elem = (\<lambda>idx. Fin 0)\<rparr>"
  have h: "shape ?src = [2, 2]" "shape ?tgt = [2, 2]" "shape ?s = [2, 1, 2, 2]" by simp_all
  have b0: "(0::nat) < 2" "(0::nat) < 1" "(0::nat) < 2" and b1: "(1::nat) < 2" "(0::nat) < 1" "(0::nat) < 2"
    by simp_all
  from causal_weight_zero[OF h b0, of "1/10" Train "\<lambda>idx. True"] obtain sm tm w where
    r: "create_mask ?src ?tgt = Inr (sm, tm)" "attention_weights ?s (Some tm) = Inr w"
    and z: "(\<exists>k\<le>0. elem ?tgt [0, k] \<noteq> 0)
           \<and> (\<forall>k\<le>0. elem ?tgt [0, k] \<noteq> 0 \<longrightarrow> is_fin (elem ?s [0, 0, 0, k])) \<longrightarrow>
         (\<forall>j<2. 0 < j \<longrightarrow> elem w [0, 0, 0, j] = Fin 0
                   \<and> elem (dropout (1/10) Train (\<lambda>idx. True) w) [0, 0, 0, j] = Fin 0)"
    by (elim exE conjE)
  from causal_weight_zero[OF h b1, of "1/10" Train "\<lambda>idx. True"] obtain sm' tm' w' where
    r': "create_mask ?src ?tgt = Inr (sm', tm')" "attention_weights ?s (Some tm') = Inr w'"
    and n: "(\<forall>k\<le>0. elem ?tgt [1, k] = 0) \<longrightarrow>
         (\<forall>j<2. elem w' [1, 0, 0, j] = NaN \<and> elem (dropout (1/10) Train (\<lambda>idx. True) w') [1, 0, 0, j] = NaN)"
    by (elim exE conjE)
  have same: "tm' = tm" "w' = w" using r r' by simp_all
  have z1: "elem w [0, 0, 0, 1] = Fin 0 \<and> elem (dropout (1/10) Train (\<lambda>idx. True) w) [0, 0, 0, 1] = Fin 0"
    using z[rule_format, of 1] by simp
  have n1: "elem w [1, 0, 0, 0] = NaN" "elem w [1, 0, 0, 1] = NaN"
    using n[rule_format, of 0] n[rule_format, of 1] same by simp_all
  show ?thesis using r z1 n1 by blast
qed

text \<open>
  Claim C4 as stated fails: when the target row starts with pad tokens, the first query
  row is masked entirely and its weights are NaN, not 0.
\<close>

theorem causal_weight_zero_counterexample:
  "\<exists>sm tm w. create_mask \<lparr>shape = [1, 2], elem = (\<lambda>idx. 5)\<rparr>
                          \<lparr>shape = [1, 2], elem = (\<lambda>idx. 0)\<rparr> = Inr (sm, tm)
      \<and> attention_weights (tmap Fin \<lparr>shape = [1, 1, 2, 2], elem = (\<lambda>idx. 0)\<rparr>) (Some tm) = Inr w
      \<and> elem w [0, 0, 0, 1] = NaN"
proof -
  have u: "[0..<2] = [0, Suc 0]" by (simp add: numeral_2_eq_2)
  show ?thesis
    by (simp add: mask_eval attention_weights_def masked_fill_def eq_zero_def softmax_def softmax_row_def
        row_of_def fl_max_list_def u)
qed

text \<open>
  The theorem at a row of two keys of which the mask leaves the first attendable; the
  score of the masked key is infinite.
\<close>

theorem attention_weights_sum_witness:
  "\<exists>w. attention_weights \<lparr>shape = [1, 1, 1, 2], elem = (\<lambda>idx. if idx = [0, 0, 0, 0] then Fin 0 else PosInf)\<rparr>
          (Some \<lparr>shape = [1, 1, 1, 2], elem = (\<lambda>idx. idx = [0, 0, 0, 0])\<rparr>) = Inr w
     \<and> shape w = [1, 1, 1, 2]
     \<and> fl_sum (map (\<lambda>j. elem w [0, 0, 0, j]) [0..<2]) = Fin 1"
proof -
  let ?s = "\<lparr>shape = [1, 1, 1, 2], elem = (\<lambda>idx. if idx = [0, 0, 0, 0::nat] then Fin 0 else PosInf)\<rparr>"
  let ?m = "\<lparr>shape = [1, 1, 1, 2], elem = (\<lambda>idx. idx = [0, 0, 0, 0::nat])\<rparr>"
  have "mask_entry ?m [0, 0, 0, 0]" by (simp add: mask_entry_def broadcast_index_def)
  then have "row_has_valid_key ?m [0, 0, 0] 2"
    unfolding row_has_valid_key_def list_ex_upt by (intro exI[of _ 0]) simp
  then have h: "shape ?s = [1, 1, 1, 2]" "(0::nat) < 1" "(0::nat) < 1" "(0::nat) < 1"
    "case Some ?m of None \<Rightarrow> 0 < 2
         | Some m \<Rightarrow> expandable (shape m) [1, 1, 1, 2] \<and> row_has_valid_key m [0, 0, 0] 2"
    by (simp_all add: expandable_def)
  have h6: "\<forall>k<2. (case Some ?m of None \<Rightarrow> True | Some m \<Rightarrow> mask_entry m [0, 0, 0, k]) \<longrightarrow>
           is_fin (elem ?s [0, 0, 0, k])"
    by (simp add: mask_entry_def broadcast_index_def)
  show ?thesis using attention_weights_sum[OF h h6] .
qed

text \<open>
  Claim C6 as stated fails: a query vector that holds \<open>+\<infinity>\<close> gives infinite scores, and
  the weights of the row, all of whose keys are attendable, are NaN, as is their sum.
\<close>

theorem attention_weights_sum_counterexample:
  "\<exists>sc w. attention_scores 1 \<lparr>shape = [1, 1, 1, 1], elem = (\<lambda>idx. PosInf)\<rparr>
                             \<lparr>shape = [1, 1, 2, 1], elem = (\<lambda>idx. Fin 1)\<rparr> = Inr sc
     \<and> row_has_valid_key \<lparr>shape = [1, 1, 1, 2], elem = (\<lambda>idx. True)\<rparr> [0, 0, 0] 2
     \<and> attention_weights sc (Some \<lparr>shape = [1, 1, 1, 2], elem = (\<lambda>idx. True)\<rparr>) = Inr w
     \<and> elem sc [0, 0, 0, 0] = PosInf
     \<and> elem w [0, 0, 0, 0] = NaN \<and> elem w [0, 0, 0, 1] = NaN
     \<and> fl_sum (map (\<lambda>j. elem w [0, 0, 0, j]) [0..<2]) = NaN"
proof -
  let ?Q = "\<lparr>shape = [1, 1, 1, 1], elem = (\<lambda>idx. PosInf)\<rparr>"
  let ?K = "\<lparr>shape = [1, 1, 2, 1], elem = (\<lambda>idx. Fin 1)\<rparr>"
  let ?m = "\<lparr>shape = [1, 1, 1, 2], elem = (\<lambda>idx. True)\<rparr>"
  have u: "[0..<2] = [0, Suc 0]" by (simp add: numeral_2_eq_2)
  have "shape ?Q = [1, 1, 1, 1]" "shape ?K = [1, 1, 2, 1]" by simp_all
  from attention_scores_4[OF this] obtain sc where sc: "attention_scores (int 1) ?Q ?K = Inr sc"
    "shape sc = [1, 1, 1, 2]"
    "\<forall>b<1. \<forall>h<1. \<forall>i j. elem sc [b, h, i, j] =
        fl_div (fl_sum (map (\<lambda>c. fl_mul (elem ?Q [b, h, i, c]) (elem ?K [b, h, j, c])) [0..<1]))
               (Fin (sqrt (real 1)))"
    by (elim exE conjE)
  have e: "elem sc [0, 0, 0, j] = PosInf" for j
    using sc(3)[rule_format, of 0 0 0 j] by (simp add: inf_signed_def)
  have ex: "case Some ?m of None \<Rightarrow> True | Some m \<Rightarrow> expandable (shape m) [1, 1, 1, 2]"
    by (simp add: expandable_def)
  from attention_weights_4[OF sc(2) ex] obtain w where w: "attention_weights sc (Some ?m) = Inr w"
    "\<forall>b<1. \<forall>h<1. \<forall>i<1. \<forall>j<2. elem w [b, h, i, j] =
        softmax_row (map (\<lambda>k. if (case Some ?m of None \<Rightarrow> False | Some m \<Rightarrow> \<not> mask_entry m [b, h, i, k])
                                 then NegInf else elem sc [b, h, i, k]) [0..<2])
           (if (case Some ?m of None \<Rightarrow> False | Some m \<Rightarrow> \<not> mask_entry m [b, h, i, j])
            then NegInf else elem sc [b, h, i, j])"
    by (elim exE conjE)
  have me: "mask_entry ?m idx" for idx by (simp add: mask_entry_def)
  have ew: "elem w [0, 0, 0, j] = NaN" if "j < 2" for j
    using w(2)[rule_format, of 0 0 0 j] that
    by (simp add: me e u softmax_row_def fl_max_list_def fl_sub_def)
  have rv: "row_has_valid_key ?m [0, 0, 0] 2"
    unfolding row_has_valid_key_def list_ex_upt by (intro exI[of _ 0]) (simp add: mask_entry_def)
  have "fl_sum (map (\<lambda>j. elem w [0, 0, 0, j]) [0..<2]) = NaN"
    by (simp add: u ew)
  then show ?thesis using sc(1) w(1) rv e[of 0] ew[of 0] ew[of 1] by simp
qed

text \<open>
  The theorem at one query and two keys, the second masked, in evaluation mode: the
  output is the first value vector.
\<close>

theorem sdpa_formula_witness:
  "\<exists>out. scaled_dot_product_attention
       \<lparr>mha_d_model = 1, mha_num_heads = 1, mha_d_k = 1,
        W_q = \<lparr>in_features = 1, out_features = 1, weight = (\<lambda>r c. 1), bias = (\<lambda>r. 0)\<rparr>,
        W_k = \<lparr>in_features = 1, out_features = 1, weight = (\<lambda>r c. 1), bias = (\<lambda>r. 0)\<rparr>,
        W_v = \<lparr>in_features = 1, out_features = 1, weight = (\<lambda>r c. 1), bias = (\<lambda>r. 0)\<rparr>,
        W_o = \<lparr>in_features = 1, out_features = 1, weight = (\<lambda>r c. 1), bias = (\<lambda>r. 0)\<rparr>,
        attn_dropout = 1/10\<rparr> Eval (\<lambda>idx. True)
       \<lparr>shape = [1, 1, 1, 1], elem = (\<lambda>idx. Fin 2)\<rparr>
       \<lparr>shape = [1, 1, 2, 1], elem = (\<lambda>idx. Fin 5)\<rparr>
       \<lparr>shape = [1, 1, 2, 1], elem = (\<lambda>idx. if idx = [0, 0, 0, 0] then Fin 3 else Fin 7)\<rparr>
       (Some \<lparr>shape = [1, 1, 1, 2], elem = (\<lambda>idx. idx = [0, 0, 0, 0])\<rparr>) = Inr out
     \<and> shape out = [1, 1, 1, 1] \<and> elem out [0, 0, 0, 0] = Fin 3"
proof -
  let ?lin = "\<lparr>in_features = 1, out_features = 1, weight = (\<lambda>r c. 1::real), bias = (\<lambda>r. 0::real)\<rparr>"
  let ?self = "\<lparr>mha_d_model = 1, mha_num_heads = 1, mha_d_k = 1,
        W_q = ?lin, W_k = ?lin, W_v = ?lin, W_o = ?lin, attn_dropout = 1/10\<rparr>"
  let ?Q = "\<lparr>shape = [1, 1, 1, 1], elem = (\<lambda>idx. Fin 2)\<rparr>"
  let ?K = "\<lparr>shape = [1, 1, 2, 1], elem = (\<lambda>idx. Fin 5)\<rparr>"
  let ?V = "\<lparr>shape = [1, 1, 2, 1], elem = (\<lambda>idx. if idx = [0, 0, 0, 0::nat] then Fin 3 else Fin 7)\<rparr>"
  let ?m = "\<lparr>shape = [1, 1, 1, 2], elem = (\<lambda>idx. idx = [0, 0, 0, 0::nat])\<rparr>"
  have h: "shape ?Q = [1, 1, 1, 1]" "shape ?K = [1, 1, 2, 1]" "shape ?V = [1, 1, 2, 1]"
    "mha_d_k ?self = int 1"
    "case Some ?m of None \<Rightarrow> True | Some m \<Rightarrow> expandable (shape m) [1, 1, 1, 2]"
    by (simp_all add: expandable_def)
  from sdpa_formula[OF h, of Eval "\<lambda>idx. True"] obtain out where
    o: "scaled_dot_product_attention ?self Eval (\<lambda>idx. True) ?Q ?K ?V (Some ?m) = Inr out"
       "shape out = [1, 1, 1, 1]"
       "\<forall>b<1. \<forall>h<1. \<forall>i<1. \<forall>c<1. elem out [b, h, i, c] =
            spec_attention (attn_dropout ?self) Eval (\<lambda>idx. True) 1 2 ?Q ?K ?V (Some ?m) b h i c"
    by (elim exE conjE)
  have u: "[0..<2] = [0, Suc 0]" by (simp add: numeral_2_eq_2)
  have "spec_attention (attn_dropout ?self) Eval (\<lambda>idx. True) 1 2 ?Q ?K ?V (Some ?m) 0 0 0 0 = Fin 3"
    by (simp add: spec_attention_def spec_weight_def spec_score_def dropout_value_def softmax_row_def
        fl_max_list_def fl_sub_def mask_entry_def broadcast_index_def u)
  then have "elem out [0, 0, 0, 0] = Fin 3" using o(3)[rule_format, of 0 0 0 0] by simp
  then show ?thesis using o(1,2) by blast
qed

section \<open>Finite values\<close>

lemma is_fin_add: "is_fin x \<Longrightarrow> is_fin y \<Longrightarrow> is_fin (fl_add x y)"
  by (auto simp: is_fin_iff)

lemma is_fin_sub: "is_fin x \<Longrightarrow> is_fin y \<Longrightarrow> is_fin (fl_sub x y)"
  by (auto simp: is_fin_iff fl_sub_def)

lemma is_fin_mul: "is_fin x \<Longrightarrow> is_fin y \<Longrightarrow> is_fin (fl_mul x y)"
  by (auto simp: is_fin_iff)

lemma is_fin_div: "is_fin x \<Longrightarrow> c \<noteq> 0 \<Longrightarrow> is_fin (fl_div x (Fin c))"
  by (auto simp: is_fin_iff)

lemma is_fin_relu: "is_fin x \<Longrightarrow> is_fin (fl_relu x)"
  by (auto simp: is_fin_iff)

lemma is_fin_sum: "list_all is_fin xs \<Longrightarrow> is_fin (fl_sum xs)"
  by (induction xs) (simp_all add: is_fin_add)

lemma is_fin_dropout: "is_fin x \<Longrightarrow> is_fin (dropout_value p md kept x)"
  by (auto simp: is_fin_iff dropout_value_def)

lemma fl_mul_zero: "is_fin y \<Longrightarrow> fl_mul (Fin 0) y = Fin 0"
  by (auto simp: is_fin_iff)

lemma row_of_3:
  assumes "shape t = [B, S, D]"
  shows "row_of t [b, s, k] = map (\<lambda>c. elem t [b, s, c]) [0..<D]"
  using assms by (simp add: row_of_def rank_def)

lemma linear_forward_3:
  assumes "shape x = [B, S, D]" "in_features l = D"
  shows "linear_forward l x = Inr \<lparr>shape = [B, S, out_features l],
            elem = (\<lambda>idx. linear_row l (row_of x idx) (last idx))\<rparr>"
  using assms by (simp add: linear_forward_def rank_def)

lemma LayerNorm_forward_3:
  assumes "shape x = [B, S, D]" "normalized_size l = D"
  shows "LayerNorm_forward l x = Inr \<lparr>shape = [B, S, D],
            elem = (\<lambda>idx. layer_norm_row l (row_of x idx) (last idx))\<rparr>"
  using assms by (simp add: LayerNorm_forward_def rank_def)

text \<open>Operations that act on each position by itself keep two runs related.\<close>

lemma related_rowwise:
  assumes rel: "related len B S D x x'"
    and sh: "shape y = [B, S, E]" "shape y' = [B, S, E]"
    and y: "\<And>b s k. b < B \<Longrightarrow> s < S \<Longrightarrow> k < E \<Longrightarrow> elem y [b, s, k] = g b s k (row_of x [b, s, k])"
    and y': "\<And>b s k. b < B \<Longrightarrow> s < S \<Longrightarrow> k < E \<Longrightarrow> elem y' [b, s, k] = g b s k (row_of x' [b, s, k])"
    and fin: "\<And>b s k row. k < E \<Longrightarrow> length row = D \<Longrightarrow> list_all is_fin row \<Longrightarrow> is_fin (g b s k row)"
  shows "related len B S E y y'"
proof -
  from rel have shx: "shape x = [B, S, D]" "shape x' = [B, S, D]"
    and ex: "\<And>b s k. b < B \<Longrightarrow> 0 < len b \<Longrightarrow> s < S \<Longrightarrow> k < D \<Longrightarrow>
       is_fin (elem x [b, s, k]) \<and> is_fin (elem x' [b, s, k]) \<and>
         (s < len b \<longrightarrow> elem x [b, s, k] = elem x' [b, s, k])"
    by (auto simp: related_def)
  have "is_fin (elem y [b, s, k]) \<and> is_fin (elem y' [b, s, k]) \<and>
         (s < len b \<longrightarrow> elem y [b, s, k] = elem y' [b, s, k])"
    if "b < B" "0 < len b" "s < S" "k < E" for b s k
  proof -
    let ?r = "map (\<lambda>c. elem x [b, s, c]) [0..<D]" and ?r' = "map (\<lambda>c. elem x' [b, s, c]) [0..<D]"
    have f: "list_all is_fin ?r" "list_all is_fin ?r'"
      using ex[OF that(1,2,3)] by (simp_all add: list_all_iff)
    have e: "?r = ?r'" if "s < len b" using ex[OF \<open>b < B\<close> \<open>0 < len b\<close> \<open>s < S\<close>] that by simp
    have ry: "elem y [b, s, k] = g b s k ?r" "elem y' [b, s, k] = g b s k ?r'"
      using y[OF that(1,3,4)] y'[OF that(1,3,4)]
      by (simp_all only: row_of_3[OF shx(1)] row_of_3[OF shx(2)])
    have fy: "is_fin (g b s k ?r)" "is_fin (g b s k ?r')"
      by (rule fin[OF that(4) _ f(1)], simp, rule fin[OF that(4) _ f(2)], simp)
    have "g b s k ?r = g b s k ?r'" if "s < len b" using e[OF that] by (simp only:)
    with ry fy show ?thesis by (simp only:) blast
  qed
  then show ?thesis using sh by (simp add: related_def)
qed

lemma is_fin_linear_row:
  assumes "list_all is_fin row"
  shows "is_fin (linear_row l row k)"
proof -
  have "list_all is_fin (map (\<lambda>c. fl_mul (row ! c) (Fin (weight l k c))) [0..<length row])"
    using assms by (auto simp: list_all_iff is_fin_iff all_set_conv_all_nth)
  then show ?thesis by (simp add: linear_row_def is_fin_add is_fin_sum)
qed

lemma related_linear:
  assumes "related len B S D x x'" "in_features l = D"
  shows "\<exists>y y'. linear_forward l x = Inr y \<and> linear_forward l x' = Inr y' \<and>
           related len B S (out_features l) y y'"
proof -
  from assms(1) have shx: "shape x = [B, S, D]" "shape x' = [B, S, D]" by (auto simp: related_def)
  let ?y = "\<lparr>shape = [B, S, out_features l], elem = (\<lambda>idx. linear_row l (row_of x idx) (last idx))\<rparr>"
  let ?y' = "\<lparr>shape = [B, S, out_features l], elem = (\<lambda>idx. linear_row l (row_of x' idx) (last idx))\<rparr>"
  have "related len B S (out_features l) ?y ?y'"
    by (rule related_rowwise[OF assms(1), where g = "\<lambda>b s k row. linear_row l row k"])
       (simp_all add: is_fin_linear_row)
  then show ?thesis
    using linear_forward_3[OF shx(1) assms(2)] linear_forward_3[OF shx(2) assms(2)] by simp
qed

lemma related_dropout:
  assumes "related len B S D x x'"
  shows "related len B S D (dropout p md keep x) (dropout p md keep x')"
proof -
  from assms have shx: "shape x = [B, S, D]" "shape x' = [B, S, D]" by (auto simp: related_def)
  show ?thesis
    by (rule related_rowwise[OF assms, where g = "\<lambda>b s k row. dropout_value p md (keep [b, s, k]) (row ! k)"])
       (simp_all add: dropout_def shx row_of_3[OF shx(1)] row_of_3[OF shx(2)] is_fin_dropout list_all_length)
qed

lemma related_relu:
  assumes "related len B S D x x'"
  shows "related len B S D (tmap fl_relu x) (tmap fl_relu x')"
proof -
  from assms have shx: "shape x = [B, S, D]" "shape x' = [B, S, D]" by (auto simp: related_def)
  show ?thesis
    by (rule related_rowwise[OF assms, where g = "\<lambda>b s k row. fl_relu (row ! k)"])
       (simp_all add: tmap_def shx row_of_3[OF shx(1)] row_of_3[OF shx(2)] is_fin_relu list_all_length)
qed

lemma related_add:
  assumes "related len B S D x x'" "related len B S D z z'"
  shows "\<exists>y y'. tensor_add x z = Inr y \<and> tensor_add x' z' = Inr y' \<and> related len B S D y y'"
proof -
  from assms have sh: "shape x = [B, S, D]" "shape x' = [B, S, D]" "shape z = [B, S, D]" "shape z' = [B, S, D]"
    by (auto simp: related_def)
  have bi: "broadcast_index [B, S, D] [b, s, k] = [b, s, k]" if "b < B" "s < S" "k < D" for b s k
    using that by (intro valid_broadcast_index) (simp add: valid_index_def)
  let ?y = "\<lparr>shape = [B, S, D], elem = (\<lambda>idx. fl_add (elem x (broadcast_index [B, S, D] idx))
                               (elem z (broadcast_index [B, S, D] idx)))\<rparr>"
  let ?y' = "\<lparr>shape = [B, S, D], elem = (\<lambda>idx. fl_add (elem x' (broadcast_index [B, S, D] idx))
                               (elem z' (broadcast_index [B, S, D] idx)))\<rparr>"
  have run: "tensor_add x z = Inr ?y" "tensor_add x' z' = Inr ?y'"
    using sh by (simp_all add: tensor_add_def broadcast_op_def broadcast_shapes_same)
  have "related len B S D ?y ?y'"
    using assms by (auto simp: related_def bi is_fin_add)
  then show ?thesis using run by blast
qed

lemma list_all_is_fin_map: "list_all is_fin row \<Longrightarrow> \<exists>rs. row = map Fin rs"
proof (induction row)
  case Nil
  then show ?case by simp
next
  case (Cons x row)
  then obtain rs where "row = map Fin rs" by auto
  moreover obtain r where "x = Fin r" using Cons.prems by (auto simp: is_fin_iff)
  ultimately have "x # row = map Fin (r # rs)" by simp
  then show ?case by (rule exI)
qed

lemma is_fin_layer_norm_row:
  assumes "list_all is_fin row" "k < length row"
  shows "is_fin (layer_norm_row l row k)"
proof -
  obtain rs where rs: "row = map Fin rs" using list_all_is_fin_map[OF assms(1)] by blast
  have n: "real (length rs) \<noteq> 0" using assms(2) rs by auto
  define m where "m = sum_list rs / real (length rs)"
  define v where "v = sum_list (map (\<lambda>r. (r - m) * (r - m)) rs) / real (length rs)"
  have mean: "fl_div (fl_sum row) (Fin (real (length row))) = Fin m"
    using n by (simp add: rs m_def fl_sum_Fin[of "\<lambda>r. r", simplified])
  have "map (\<lambda>x. fl_mul (fl_sub x (Fin m)) (fl_sub x (Fin m))) row = map (\<lambda>r. Fin ((r - m) * (r - m))) rs"
    by (simp add: rs fl_sub_def)
  then have "fl_sum (map (\<lambda>x. fl_mul (fl_sub x (Fin m)) (fl_sub x (Fin m))) row)
       = Fin (sum_list (map (\<lambda>r. (r - m) * (r - m)) rs))"
    by (simp only: fl_sum_Fin)
  then have var: "fl_div (fl_sum (map (\<lambda>x. fl_mul (fl_sub x (Fin m)) (fl_sub x (Fin m))) row))
        (Fin (real (length row))) = Fin v"
    using n by (simp add: v_def rs)
  have "0 \<le> sum_list (map (\<lambda>r. (r - m) * (r - m)) rs)"
    by (rule sum_list_nonneg) auto
  then have v0: "0 \<le> v" by (simp add: v_def)
  then have pos: "0 < v + layer_norm_eps" by (simp add: layer_norm_eps_def)
  then have sq: "fl_sqrt (fl_add (Fin v) (Fin layer_norm_eps)) = Fin (sqrt (v + layer_norm_eps))"
    "sqrt (v + layer_norm_eps) \<noteq> 0"
    by simp_all
  have rk: "row ! k = Fin (rs ! k)" using assms(2) rs by simp
  show ?thesis
    unfolding layer_norm_row_def Let_def mean var sq(1) rk
    using sq(2) by (simp add: fl_sub_def)
qed

lemma related_layer_norm:
  assumes "related len B S D x x'" "normalized_size l = D"
  shows "\<exists>y y'. LayerNorm_forward l x = Inr y \<and> LayerNorm_forward l x' = Inr y' \<and>
           related len B S D y y'"
proof -
  from assms(1) have shx: "shape x = [B, S, D]" "shape x' = [B, S, D]" by (auto simp: related_def)
  let ?y = "\<lparr>shape = [B, S, D], elem = (\<lambda>idx. layer_norm_row l (row_of x idx) (last idx))\<rparr>"
  let ?y' = "\<lparr>shape = [B, S, D], elem = (\<lambda>idx. layer_norm_row l (row_of x' idx) (last idx))\<rparr>"
  have "related len B S D ?y ?y'"
    by (rule related_rowwise[OF assms(1), where g = "\<lambda>b s k row. layer_norm_row l row k"])
       (simp_all add: is_fin_layer_norm_row)
  then show ?thesis
    using LayerNorm_forward_3[OF shx(1) assms(2)] LayerNorm_forward_3[OF shx(2) assms(2)] by simp
qed

lemma related_feed_forward:
  assumes "related len B S D x x'"
    and "in_features (ff_linear1 f) = D" "in_features (ff_linear2 f) = out_features (ff_linear1 f)"
    and "out_features (ff_linear2 f) = D"
  shows "\<exists>y y'. FeedForward_forward f md keep x = Inr y \<and> FeedForward_forward f md keep x' = Inr y' \<and>
           related len B S D y y'"
proof -
  obtain h h' where h: "linear_forward (ff_linear1 f) x = Inr h" "linear_forward (ff_linear1 f) x' = Inr h'"
      "related len B S (out_features (ff_linear1 f)) h h'"
    using related_linear[OF assms(1,2)] by blast
  have "related len B S (out_features (ff_linear1 f))
          (dropout (ff_dropout f) md keep (tmap fl_relu h)) (dropout (ff_dropout f) md keep (tmap fl_relu h'))"
    using h(3) by (intro related_dropout related_relu)
  from related_linear[OF this assms(3)] show ?thesis
    using h(1,2) assms(4) by (simp add: FeedForward_forward_def)
qed

section \<open>Reshaping\<close>

lemma flat_index_less: "valid_index sh idx \<Longrightarrow> flat_index sh idx < prod_list sh"
  unfolding valid_index_def
proof (induction idx sh rule: list_all2_induct)
  case Nil
  then show ?case by simp
next
  case (Cons i idx d sh)
  have "i * prod_list sh + flat_index sh idx < i * prod_list sh + prod_list sh"
    using Cons.IH by simp
  also have "\<dots> = Suc i * prod_list sh" by simp
  also have "\<dots> \<le> d * prod_list sh" using Cons.hyps(1) by (intro mult_le_mono1) simp
  finally show ?case by simp
qed

lemma unflat_flat: "valid_index sh idx \<Longrightarrow> unflat_index sh (flat_index sh idx) = idx"
proof (induction sh arbitrary: idx)
  case Nil
  then show ?case by (simp add: valid_index_def)
next
  case (Cons d sh)
  then obtain i rest where idx: "idx = i # rest" and v: "valid_index sh rest"
    by (cases idx) (auto simp: valid_index_def)
  have lt: "flat_index sh rest < prod_list sh" using v by (rule flat_index_less)
  then show ?case using Cons.IH[OF v] by (simp add: idx)
qed

lemma split_index:
  assumes "b < B" "s < S" "h < H" "c < dk"
  shows "unflat_index [B, S, H * dk] (flat_index [B, S, H, dk] [b, s, h, c]) = [b, s, h * dk + c]"
proof -
  have "h * dk + c < h * dk + dk" using assms by simp
  also have "\<dots> = Suc h * dk" by simp
  also have "\<dots> \<le> H * dk" using assms(3) by (intro mult_le_mono1) simp
  finally have v: "valid_index [B, S, H * dk] [b, s, h * dk + c]"
    using assms by (simp add: valid_index_def)
  have "flat_index [B, S, H, dk] [b, s, h, c] = flat_index [B, S, H * dk] [b, s, h * dk + c]"
    by (simp add: algebra_simps)
  then show ?thesis using unflat_flat[OF v] by simp
qed

lemma merge_index:
  assumes "b < B" "s < S" "d < H * dk"
  shows "unflat_index [B, S, H, dk] (flat_index [B, S, H * dk] [b, s, d]) = [b, s, d div dk, d mod dk]"
proof -
  have dk: "0 < dk" using assms(3) by (cases dk) auto
  have "d div dk < H" using assms(3) dk by (simp add: less_mult_imp_div_less)
  then have v: "valid_index [B, S, H, dk] [b, s, d div dk, d mod dk]"
    using assms dk by (simp add: valid_index_def)
  have "flat_index [B, S, H * dk] [b, s, d] = flat_index [B, S, H, dk] [b, s, d div dk, d mod dk]"
    by (simp add: algebra_simps)
  then show ?thesis using unflat_flat[OF v] by simp
qed

lemma view_split:
  assumes "shape t = [B, S, H * dk]" "0 < B" "0 < H" "0 < dk"
  shows "view [int B, - 1, int H, int dk] t =
     Inr \<lparr>shape = [B, S, H, dk],
          elem = (\<lambda>idx. elem t (unflat_index [B, S, H * dk] (flat_index [B, S, H, dk] idx)))\<rparr>"
proof -
  have "B * (S * (H * dk)) = S * (B * (H * dk))" by simp
  then have "infer_size [int B, - 1, int H, int dk] (B * (S * (H * dk))) = Inr [B, S, H, dk]"
    using assms(2,3,4) by (simp add: infer_size_def)
  then show ?thesis using assms(1) by (simp add: view_def)
qed

lemma view_merge:
  assumes "shape t = [B, S, H, dk]" "0 < B" "0 < H" "0 < dk" "D = H * dk"
  shows "view [int B, - 1, int D] t =
     Inr \<lparr>shape = [B, S, D],
          elem = (\<lambda>idx. elem t (unflat_index [B, S, H, dk] (flat_index [B, S, D] idx)))\<rparr>"
proof -
  have D: "0 < D" using assms by simp
  have n: "prod_list [B, S, H, dk] = S * (B * D)" using assms(5) by simp
  have i: "infer_size [int B, - 1, int D] (S * (B * D)) = Inr [B, S, D]"
    using assms(2) D by (simp add: infer_size_def del: of_nat_mult)
  show ?thesis by (simp only: view_def assms(1) n i bindE_simps)
qed

lemma swap_12_4: "swap (Suc 0) 2 [a, b, c, d] = [a, c, b, d]"
  by (simp add: swap_def numeral_2_eq_2)

lemma transpose_12_4:
  assumes "shape t = [B, S, H, dk]"
  shows "transpose_dims 1 2 t = Inr \<lparr>shape = [B, H, S, dk], elem = (\<lambda>idx. elem t (swap 1 2 idx))\<rparr>"
  using assms by (simp add: transpose_dims_def wrap_dim_def rank_def swap_12_4)

section \<open>The attention module\<close>

lemma softmax_row_is_fin:
  assumes "\<forall>x\<in>set row. x = NegInf \<or> is_fin x" "\<exists>x\<in>set row. is_fin x"
    and "x = NegInf \<or> is_fin x"
  shows "is_fin (softmax_row row x)"
proof -
  have a1: "\<forall>x\<in>set row. x = NegInf \<or> (\<exists>r. x = Fin r)" using assms(1) by (simp add: is_fin_iff)
  have a2: "\<exists>r. Fin r \<in> set row" using assms(2) by (auto simp: is_fin_iff)
  obtain u where u: "fl_max_list row = Fin u"
    using fl_max_list_masked[OF a1] a2 by auto
  define e where "e = (\<lambda>x. case x of Fin r \<Rightarrow> exp (r - u) | _ \<Rightarrow> 0)"
  have expo: "fl_exp (fl_sub x (Fin u)) = Fin (e x)" if "x = NegInf \<or> (\<exists>r. x = Fin r)" for x
    using that by (auto simp: fl_sub_def e_def)
  have "map (\<lambda>y. fl_exp (fl_sub y (Fin u))) row = map (\<lambda>y. Fin (e y)) row"
    using a1 expo by simp
  then have total: "fl_sum (map (\<lambda>y. fl_exp (fl_sub y (Fin u))) row) = Fin (sum_list (map e row))"
    by (simp only: fl_sum_Fin)
  have nonneg: "0 \<le> e x" for x by (simp add: e_def split: fl.split)
  obtain r where r: "Fin r \<in> set row" using a2 by blast
  have "0 < e (Fin r)" by (simp add: e_def)
  moreover have "e (Fin r) \<le> sum_list (map e row)"
    using r nonneg by (intro member_le_sum_list) auto
  ultimately have pos: "0 < sum_list (map e row)" by linarith
  have "x = NegInf \<or> (\<exists>r. x = Fin r)" using assms(3) by (simp add: is_fin_iff)
  from expo[OF this] total pos show ?thesis by (simp add: softmax_row_def u)
qed

lemma split_heads_char:
  assumes "shape x = [B, S, D]" "in_features W = D" "out_features W = D" "D = H * dk"
    and "0 < B" "0 < H" "0 < dk" "mha_num_heads self = int H" "mha_d_k self = int dk"
  shows "\<exists>Q. split_heads self B W x = Inr Q \<and> shape Q = [B, H, S, dk] \<and>
     (\<forall>b<B. \<forall>h<H. \<forall>s<S. \<forall>c<dk.
        elem Q [b, h, s, c] = linear_row W (map (\<lambda>k. elem x [b, s, k]) [0..<D]) (h * dk + c))"
proof -
  let ?y = "\<lparr>shape = [B, S, out_features W], elem = (\<lambda>idx. linear_row W (row_of x idx) (last idx))\<rparr>"
  have y: "linear_forward W x = Inr ?y" using assms(1,2) by (rule linear_forward_3)
  have shy: "shape ?y = [B, S, H * dk]" using assms(3,4) by simp
  let ?v = "\<lparr>shape = [B, S, H, dk],
          elem = (\<lambda>idx. elem ?y (unflat_index [B, S, H * dk] (flat_index [B, S, H, dk] idx)))\<rparr>"
  have v: "view [int B, - 1, int H, int dk] ?y = Inr ?v"
    using view_split[OF shy assms(5,6,7)] .
  let ?Q = "\<lparr>shape = [B, H, S, dk], elem = (\<lambda>idx. elem ?v (swap 1 2 idx))\<rparr>"
  have "shape ?v = [B, S, H, dk]" by simp
  from transpose_12_4[OF this] have q: "transpose_dims 1 2 ?v = Inr ?Q" .
  have run: "split_heads self B W x = Inr ?Q"
    unfolding split_heads_def y bindE_simps assms(8,9) v q ..
  have "elem ?Q [b, h, s, c] = linear_row W (map (\<lambda>k. elem x [b, s, k]) [0..<D]) (h * dk + c)"
    if "b < B" "h < H" "s < S" "c < dk" for b h s c
    using split_index[OF that(1,3,2,4)] by (simp add: swap_12_4 row_of_3[OF assms(1)])
  then show ?thesis using run by (intro exI[of _ ?Q]) simp
qed

lemma merge_heads_char:
  assumes "shape t = [B, H, S, dk]" "D = H * dk" "0 < B" "0 < H" "0 < dk"
  shows "\<exists>a. bindE (transpose_dims 1 2 t) (\<lambda>x. view [int B, - 1, int D] x) = Inr a
     \<and> shape a = [B, S, D]
     \<and> (\<forall>b<B. \<forall>s<S. \<forall>d<D. elem a [b, s, d] = elem t [b, d div dk, s, d mod dk])"
proof -
  let ?u = "\<lparr>shape = [B, S, H, dk], elem = (\<lambda>idx. elem t (swap 1 2 idx))\<rparr>"
  have u: "transpose_dims 1 2 t = Inr ?u" using transpose_12_4[OF assms(1)] .
  have "shape ?u = [B, S, H, dk]" by simp
  from view_merge[OF this assms(3,4,5,2)]
  have a: "view [int B, - 1, int D] ?u =
     Inr \<lparr>shape = [B, S, D],
          elem = (\<lambda>idx. elem ?u (unflat_index [B, S, H, dk] (flat_index [B, S, D] idx)))\<rparr>" .
  have "elem ?u (unflat_index [B, S, H, dk] (flat_index [B, S, D] [b, s, d])) = elem t [b, d div dk, s, d mod dk]"
    if "b < B" "s < S" "d < D" for b s d
    using merge_index[OF that(1,2), of d H dk] that(3) assms(2) by (simp add: swap_12_4)
  then show ?thesis unfolding u bindE_simps a by simp
qed

lemma mha_forward_char:
  assumes "shape x = [B, S, D]" "D = H * dk" "0 < B" "0 < H" "0 < dk"
    and "mha_d_model self = int D" "mha_num_heads self = int H" "mha_d_k self = int dk"
    and "in_features (W_q self) = D" "out_features (W_q self) = D"
    and "in_features (W_k self) = D" "out_features (W_k self) = D"
    and "in_features (W_v self) = D" "out_features (W_v self) = D"
    and "case msk of None \<Rightarrow> True | Some m \<Rightarrow> expandable (shape m) [B, H, S, S]"
  shows "\<exists>Q K V a. shape Q = [B, H, S, dk] \<and> shape K = [B, H, S, dk] \<and> shape V = [B, H, S, dk]
     \<and> (\<forall>b<B. \<forall>h<H. \<forall>s<S. \<forall>c<dk.
          elem Q [b, h, s, c] = linear_row (W_q self) (map (\<lambda>k. elem x [b, s, k]) [0..<D]) (h * dk + c)
        \<and> elem K [b, h, s, c] = linear_row (W_k self) (map (\<lambda>k. elem x [b, s, k]) [0..<D]) (h * dk + c)
        \<and> elem V [b, h, s, c] = linear_row (W_v self) (map (\<lambda>k. elem x [b, s, k]) [0..<D]) (h * dk + c))
     \<and> shape a = [B, S, D]
     \<and> (\<forall>b<B. \<forall>s<S. \<forall>d<D. elem a [b, s, d] =
           spec_attention (attn_dropout self) md keep dk S Q K V msk b (d div dk) s (d mod dk))
     \<and> MultiHeadAttention_forward self md keep x x x msk = linear_forward (W_o self) a"
proof -
  note wf = assms(2,3,4,5,7,8)
  obtain Q where Q: "split_heads self B (W_q self) x = Inr Q" "shape Q = [B, H, S, dk]"
    "\<forall>b<B. \<forall>h<H. \<forall>s<S. \<forall>c<dk.
        elem Q [b, h, s, c] = linear_row (W_q self) (map (\<lambda>k. elem x [b, s, k]) [0..<D]) (h * dk + c)"
    using split_heads_char[OF assms(1,9,10) wf] by (elim exE conjE)
  obtain K where K: "split_heads self B (W_k self) x = Inr K" "shape K = [B, H, S, dk]"
    "\<forall>b<B. \<forall>h<H. \<forall>s<S. \<forall>c<dk.
        elem K [b, h, s, c] = linear_row (W_k self) (map (\<lambda>k. elem x [b, s, k]) [0..<D]) (h * dk + c)"
    using split_heads_char[OF assms(1,11,12) wf] by (elim exE conjE)
  obtain V where V: "split_heads self B (W_v self) x = Inr V" "shape V = [B, H, S, dk]"
    "\<forall>b<B. \<forall>h<H. \<forall>s<S. \<forall>c<dk.
        elem V [b, h, s, c] = linear_row (W_v self) (map (\<lambda>k. elem x [b, s, k]) [0..<D]) (h * dk + c)"
    using split_heads_char[OF assms(1,13,14) wf] by (elim exE conjE)
  obtain out where out: "scaled_dot_product_attention self md keep Q K V msk = Inr out"
    "shape out = [B, H, S, dk]"
    "\<forall>b<B. \<forall>h<H. \<forall>i<S. \<forall>c<dk. elem out [b, h, i, c] =
            spec_attention (attn_dropout self) md keep dk S Q K V msk b h i c"
    using sdpa_char[OF Q(2) K(2) V(2) assms(8,15), where md = md and keep = keep] by (elim exE conjE)
  obtain a where a: "bindE (transpose_dims 1 2 out) (\<lambda>x. view [int B, - 1, int D] x) = Inr a"
    "shape a = [B, S, D]"
    "\<forall>b<B. \<forall>s<S. \<forall>d<D. elem a [b, s, d] = elem out [b, d div dk, s, d mod dk]"
    using merge_heads_char[OF out(2) assms(2,3,4,5)] by (elim exE conjE)
  have sz: "size_dim x 0 = Inr B" using assms(1) by (simp add: size_dim_def wrap_dim_def rank_def)
  have run: "MultiHeadAttention_forward self md keep x x x msk = linear_forward (W_o self) a"
  proof -
    have "MultiHeadAttention_forward self md keep x x x msk =
        bindE (bindE (transpose_dims 1 2 out) (\<lambda>x. view [int B, - 1, int D] x)) (linear_forward (W_o self))"
      unfolding MultiHeadAttention_forward_def sz bindE_simps Q(1) K(1) V(1) out(1) assms(6)
      by (cases "transpose_dims 1 2 out") simp_all
    then show ?thesis unfolding a(1) bindE_simps .
  qed
  have ea: "elem a [b, s, d] = spec_attention (attn_dropout self) md keep dk S Q K V msk b (d div dk) s (d mod dk)"
    if "b < B" "s < S" "d < D" for b s d
  proof -
    have "d div dk < H" using that(3) assms(2,5) by (simp add: less_mult_imp_div_less)
    moreover have "d mod dk < dk" using assms(5) by simp
    ultimately show ?thesis using a(3) out(3) that by simp
  qed
  show ?thesis
    using Q(2,3) K(2,3) V(2,3) a(2) ea run
    by (intro exI[of _ Q] exI[of _ K] exI[of _ V] exI[of _ a]) simp
qed

text \<open>
  One attention row in two runs. The keys at and beyond \<open>n\<close> are masked; the projected
  queries, keys and values are finite and agree at the positions before \<open>n\<close>.
\<close>

lemma softmax_row_masked_zero:
  assumes "\<forall>x\<in>set row. x = NegInf \<or> is_fin x" "\<exists>x\<in>set row. is_fin x"
  shows "softmax_row row NegInf = Fin 0"
proof -
  have a1: "\<forall>x\<in>set row. x = NegInf \<or> (\<exists>r. x = Fin r)" using assms(1) by (simp add: is_fin_iff)
  have a2: "\<exists>r. Fin r \<in> set row" using assms(2) by (auto simp: is_fin_iff)
  from softmax_row_masked[OF a1 a2] show ?thesis by (rule conjunct2)
qed

lemma attention_related:
  assumes fin: "\<And>s c. s < S \<Longrightarrow> c < dk \<Longrightarrow>
        is_fin (elem Q [b, h, s, c]) \<and> is_fin (elem K [b, h, s, c]) \<and> is_fin (elem V [b, h, s, c])
      \<and> is_fin (elem Q' [b, h, s, c]) \<and> is_fin (elem K' [b, h, s, c]) \<and> is_fin (elem V' [b, h, s, c])"
    and eq: "\<And>s c. s < S \<Longrightarrow> s < n \<Longrightarrow> c < dk \<Longrightarrow>
        elem Q [b, h, s, c] = elem Q' [b, h, s, c] \<and> elem K [b, h, s, c] = elem K' [b, h, s, c]
      \<and> elem V [b, h, s, c] = elem V' [b, h, s, c]"
    and me: "\<And>j. j < S \<Longrightarrow> mask_entry m [b, h, i, j] = (j < n)"
    and pos: "0 < n" "0 < dk" "i < S" "c < dk"
  shows "is_fin (spec_attention p md keep dk S Q K V (Some m) b h i c)
       \<and> is_fin (spec_attention p md keep dk S Q' K' V' (Some m) b h i c)
       \<and> (i < n \<longrightarrow> spec_attention p md keep dk S Q K V (Some m) b h i c
                    = spec_attention p md keep dk S Q' K' V' (Some m) b h i c)"
proof -
  let ?sc = "spec_score dk Q K (Some m) b h i" and ?sc' = "spec_score dk Q' K' (Some m) b h i"
  have sq: "sqrt (real dk) \<noteq> 0" using pos(2) by simp
  have scneg: "?sc j = NegInf" "?sc' j = NegInf" if "j < S" "\<not> j < n" for j
    using me[OF that(1)] that(2) by (simp_all add: spec_score_def)
  have scfin: "is_fin (?sc j)" "is_fin (?sc' j)" if "j < S" "j < n" for j
  proof -
    have "list_all is_fin (map (\<lambda>c. fl_mul (elem Q [b, h, i, c]) (elem K [b, h, j, c])) [0..<dk])"
      "list_all is_fin (map (\<lambda>c. fl_mul (elem Q' [b, h, i, c]) (elem K' [b, h, j, c])) [0..<dk])"
      using fin[OF pos(3)] fin[OF that(1)] by (simp_all add: list_all_iff is_fin_mul)
    then show "is_fin (?sc j)" "is_fin (?sc' j)"
      using me[OF that(1)] that(2) sq by (simp_all add: spec_score_def is_fin_sum is_fin_div)
  qed
  have sceq: "?sc j = ?sc' j" if "i < n" "j < S" for j
  proof (cases "j < n")
    case True
    have "map (\<lambda>c. fl_mul (elem Q [b, h, i, c]) (elem K [b, h, j, c])) [0..<dk] =
          map (\<lambda>c. fl_mul (elem Q' [b, h, i, c]) (elem K' [b, h, j, c])) [0..<dk]"
      using eq[OF pos(3) that(1)] eq[OF that(2) True] by simp
    then show ?thesis by (simp only: spec_score_def)
  next
    case False
    then show ?thesis using scneg[OF that(2)] by simp
  qed
  let ?row = "map ?sc [0..<S]" and ?row' = "map ?sc' [0..<S]"
  have entry: "?sc j = NegInf \<or> is_fin (?sc j)" "?sc' j = NegInf \<or> is_fin (?sc' j)" if "j < S" for j
    using scneg[OF that] scfin[OF that] by (cases "j < n"; simp)+
  have rowok: "\<forall>x\<in>set ?row. x = NegInf \<or> is_fin x" "\<forall>x\<in>set ?row'. x = NegInf \<or> is_fin x"
    using entry by auto
  have S0: "0 < S" using pos(3) by simp
  have "is_fin (?sc 0)" "is_fin (?sc' 0)" using scfin[OF S0 pos(1)] by simp_all
  then have rowfin: "\<exists>x\<in>set ?row. is_fin x" "\<exists>x\<in>set ?row'. is_fin x"
    using S0 by (auto intro!: bexI[of _ 0])
  have roweq: "?row = ?row'" if "i < n" using sceq[OF that] by simp
  let ?sm = "\<lambda>j. softmax_row ?row (?sc j)" and ?sm' = "\<lambda>j. softmax_row ?row' (?sc' j)"
  have smfin: "is_fin (?sm j)" "is_fin (?sm' j)" if "j < S" for j
  proof -
    have "?sc j = NegInf \<or> is_fin (?sc j)" "?sc' j = NegInf \<or> is_fin (?sc' j)"
      using entry[OF that] .
    then show "is_fin (?sm j)" "is_fin (?sm' j)"
      using softmax_row_is_fin[OF rowok(1) rowfin(1)] softmax_row_is_fin[OF rowok(2) rowfin(2)] by auto
  qed
  have smzero: "?sm j = Fin 0" "?sm' j = Fin 0" if "j < S" "\<not> j < n" for j
    using softmax_row_masked_zero[OF rowok(1) rowfin(1)] softmax_row_masked_zero[OF rowok(2) rowfin(2)]
      scneg[OF that]
    by (simp_all only:)
  have smeq: "?sm j = ?sm' j" if "i < n" "j < S" for j
    using roweq[OF that(1)] sceq[OF that] by (simp only:)
  let ?w = "spec_weight p md keep dk S Q K (Some m) b h i"
  let ?w' = "spec_weight p md keep dk S Q' K' (Some m) b h i"
  have w: "?w j = dropout_value p md (keep [b, h, i, j]) (?sm j)"
    "?w' j = dropout_value p md (keep [b, h, i, j]) (?sm' j)" for j
    by (simp_all only: spec_weight_def)
  let ?t = "\<lambda>j. fl_mul (?w j) (elem V [b, h, j, c])" and ?t' = "\<lambda>j. fl_mul (?w' j) (elem V' [b, h, j, c])"
  have tfin: "is_fin (?t j)" "is_fin (?t' j)" if "j < S" for j
    using smfin[OF that] fin[OF that pos(4)] unfolding w by (simp_all add: is_fin_mul is_fin_dropout)
  have teq: "?t j = ?t' j" if "i < n" "j < S" for j
  proof (cases "j < n")
    case True
    then show ?thesis using smeq[OF that] eq[OF that(2) True pos(4)] unfolding w by (simp only:)
  next
    case False
    have "?w j = Fin 0" "?w' j = Fin 0"
      unfolding w using smzero[OF that(2) False] by (simp_all only: dropout_value_zero)
    then show ?thesis using fin[OF that(2) pos(4)] by (simp add: fl_mul_zero)
  qed
  have A: "spec_attention p md keep dk S Q K V (Some m) b h i c = fl_sum (map ?t [0..<S])"
    "spec_attention p md keep dk S Q' K' V' (Some m) b h i c = fl_sum (map ?t' [0..<S])"
    by (simp_all only: spec_attention_def)
  have la: "list_all is_fin (map ?t [0..<S])" "list_all is_fin (map ?t' [0..<S])"
    using tfin by (simp_all add: list_all_iff)
  have f: "is_fin (fl_sum (map ?t [0..<S]))" "is_fin (fl_sum (map ?t' [0..<S]))"
    using is_fin_sum[OF la(1)] is_fin_sum[OF la(2)] .
  have "map ?t [0..<S] = map ?t' [0..<S]" if "i < n" using teq[OF that] by simp
  then have "i < n \<longrightarrow> fl_sum (map ?t [0..<S]) = fl_sum (map ?t' [0..<S])"
    by (auto intro: arg_cong[where f = fl_sum])
  with f show ?thesis unfolding A by blast
qed

lemma related_mha:
  assumes rel: "related len B S D x x'"
    and wf: "D = H * dk" "0 < B" "0 < H" "0 < dk"
      "mha_d_model self = int D" "mha_num_heads self = int H" "mha_d_k self = int dk"
      "in_features (W_q self) = D" "out_features (W_q self) = D"
      "in_features (W_k self) = D" "out_features (W_k self) = D"
      "in_features (W_v self) = D" "out_features (W_v self) = D"
    and wo: "in_features (W_o self) = D" "out_features (W_o self) = D"
    and mask: "shape m = [B, 1, 1, S]" "\<forall>b<B. \<forall>j<S. elem m [b, 0, 0, j] = (j < len b)"
  shows "\<exists>y y'. MultiHeadAttention_forward self md keep x x x (Some m) = Inr y
             \<and> MultiHeadAttention_forward self md keep x' x' x' (Some m) = Inr y'
             \<and> related len B S D y y'"
proof -
  from rel have shx: "shape x = [B, S, D]" "shape x' = [B, S, D]"
    and ex: "\<And>b s k. b < B \<Longrightarrow> 0 < len b \<Longrightarrow> s < S \<Longrightarrow> k < D \<Longrightarrow>
       is_fin (elem x [b, s, k]) \<and> is_fin (elem x' [b, s, k]) \<and>
         (s < len b \<longrightarrow> elem x [b, s, k] = elem x' [b, s, k])"
    by (auto simp: related_def)
  have exm: "case Some m of None \<Rightarrow> True | Some m \<Rightarrow> expandable (shape m) [B, H, S, S]"
    using mask(1) by (simp add: expandable_def)
  let ?r = "\<lambda>b s. map (\<lambda>k. elem x [b, s, k]) [0..<D]" and ?r' = "\<lambda>b s. map (\<lambda>k. elem x' [b, s, k]) [0..<D]"
  obtain Q K V a where A: "shape a = [B, S, D]"
     "\<forall>b<B. \<forall>h<H. \<forall>s<S. \<forall>c<dk.
          elem Q [b, h, s, c] = linear_row (W_q self) (?r b s) (h * dk + c)
        \<and> elem K [b, h, s, c] = linear_row (W_k self) (?r b s) (h * dk + c)
        \<and> elem V [b, h, s, c] = linear_row (W_v self) (?r b s) (h * dk + c)"
     "\<forall>b<B. \<forall>s<S. \<forall>d<D. elem a [b, s, d] =
           spec_attention (attn_dropout self) md keep dk S Q K V (Some m) b (d div dk) s (d mod dk)"
     "MultiHeadAttention_forward self md keep x x x (Some m) = linear_forward (W_o self) a"
    using mha_forward_char[OF shx(1) wf exm, where md = md and keep = keep] by (elim exE conjE)
  obtain Q' K' V' a' where A': "shape a' = [B, S, D]"
     "\<forall>b<B. \<forall>h<H. \<forall>s<S. \<forall>c<dk.
          elem Q' [b, h, s, c] = linear_row (W_q self) (?r' b s) (h * dk + c)
        \<and> elem K' [b, h, s, c] = linear_row (W_k self) (?r' b s) (h * dk + c)
        \<and> elem V' [b, h, s, c] = linear_row (W_v self) (?r' b s) (h * dk + c)"
     "\<forall>b<B. \<forall>s<S. \<forall>d<D. elem a' [b, s, d] =
           spec_attention (attn_dropout self) md keep dk S Q' K' V' (Some m) b (d div dk) s (d mod dk)"
     "MultiHeadAttention_forward self md keep x' x' x' (Some m) = linear_forward (W_o self) a'"
    using mha_forward_char[OF shx(2) wf exm, where md = md and keep = keep] by (elim exE conjE)
  have rowfin: "list_all is_fin (?r b s)" "list_all is_fin (?r' b s)" if "b < B" "0 < len b" "s < S" for b s
    using ex[OF that] by (simp_all add: list_all_iff)
  have roweq: "?r b s = ?r' b s" if "b < B" "0 < len b" "s < S" "s < len b" for b s
    using ex[OF that(1,2,3)] that(4) by simp
  have rel_a: "is_fin (elem a [b, s, d]) \<and> is_fin (elem a' [b, s, d]) \<and>
         (s < len b \<longrightarrow> elem a [b, s, d] = elem a' [b, s, d])"
    if "b < B" "0 < len b" "s < S" "d < D" for b s d
  proof -
    let ?h = "d div dk" and ?c = "d mod dk"
    have h: "?h < H" using that(4) wf(1,4) by (simp add: less_mult_imp_div_less)
    have c: "?c < dk" using wf(4) by simp
    have fin: "is_fin (elem Q [b, ?h, s, c]) \<and> is_fin (elem K [b, ?h, s, c]) \<and> is_fin (elem V [b, ?h, s, c])
      \<and> is_fin (elem Q' [b, ?h, s, c]) \<and> is_fin (elem K' [b, ?h, s, c]) \<and> is_fin (elem V' [b, ?h, s, c])"
      if "s < S" "c < dk" for s c
      using A(2)[rule_format, OF \<open>b < B\<close> h that] A'(2)[rule_format, OF \<open>b < B\<close> h that]
        rowfin[OF \<open>b < B\<close> \<open>0 < len b\<close> that(1)]
      by (simp add: is_fin_linear_row)
    have eq: "elem Q [b, ?h, s, c] = elem Q' [b, ?h, s, c] \<and> elem K [b, ?h, s, c] = elem K' [b, ?h, s, c]
      \<and> elem V [b, ?h, s, c] = elem V' [b, ?h, s, c]"
      if "s < S" "s < len b" "c < dk" for s c
      using A(2)[rule_format, OF \<open>b < B\<close> h that(1,3)] A'(2)[rule_format, OF \<open>b < B\<close> h that(1,3)]
        roweq[OF \<open>b < B\<close> \<open>0 < len b\<close> that(1,2)]
      by simp
    have me: "mask_entry m [b, ?h, s, j] = (j < len b)" if "j < S" for j
      using mask_entry_4[OF mask(1) \<open>b < B\<close>, of s j ?h] mask(2) that \<open>b < B\<close> by simp
    from attention_related[of S dk Q b ?h K V Q' K' V' "len b" m s ?c, OF fin eq me that(2) wf(4) that(3) c]
    show ?thesis using A(3) A'(3) that by simp
  qed
  have "related len B S D a a'" using A(1) A'(1) rel_a by (simp add: related_def)
  from related_linear[OF this wo(1)] show ?thesis using A(4) A'(4) wo(2) by simp
qed

lemma mha_init_wf:
  assumes "MultiHeadAttention_init mem d h p iq ik iv io = Inr self" "0 < h" "0 < d"
  shows "nat d = nat h * nat (d div h) \<and> 0 < nat h \<and> 0 < nat (d div h)
     \<and> mha_d_model self = int (nat d) \<and> mha_num_heads self = int (nat h)
     \<and> mha_d_k self = int (nat (d div h))
     \<and> in_features (W_q self) = nat d \<and> out_features (W_q self) = nat d
     \<and> in_features (W_k self) = nat d \<and> out_features (W_k self) = nat d
     \<and> in_features (W_v self) = nat d \<and> out_features (W_v self) = nat d
     \<and> in_features (W_o self) = nat d \<and> out_features (W_o self) = nat d"
proof -
  from assms have m: "d mod h = 0"
    by (auto simp: MultiHeadAttention_init_def py_mod_def split: if_splits)
  then have dv: "d = h * (d div h)" by auto
  have q: "0 < d div h" using assms(2,3) dv by (metis zero_less_mult_pos)
  have "nat d = nat (h * (d div h))" using dv by simp
  also have "\<dots> = nat h * nat (d div h)" using assms(2) by (simp add: nat_mult_distrib)
  finally have n: "nat d = nat h * nat (d div h)" .
  from assms m have sf: "self = \<lparr>mha_d_model = d, mha_num_heads = h, mha_d_k = d div h,
          W_q = \<lparr>in_features = nat d, out_features = nat d, weight = fst iq, bias = snd iq\<rparr>,
          W_k = \<lparr>in_features = nat d, out_features = nat d, weight = fst ik, bias = snd ik\<rparr>,
          W_v = \<lparr>in_features = nat d, out_features = nat d, weight = fst iv, bias = snd iv\<rparr>,
          W_o = \<lparr>in_features = nat d, out_features = nat d, weight = fst io, bias = snd io\<rparr>,
          attn_dropout = p\<rparr>"
    by (auto simp: MultiHeadAttention_init_def py_mod_def py_floordiv_def nn_Linear_square nn_Dropout_def
        split: if_splits)
  have f: "mha_d_model self = int (nat d)" "mha_num_heads self = int (nat h)"
    "mha_d_k self = int (nat (d div h))"
    "in_features (W_q self) = nat d" "out_features (W_q self) = nat d"
    "in_features (W_k self) = nat d" "out_features (W_k self) = nat d"
    "in_features (W_v self) = nat d" "out_features (W_v self) = nat d"
    "in_features (W_o self) = nat d" "out_features (W_o self) = nat d"
    using q assms(2,3) by (simp_all add: sf)
  have "0 < nat h" "0 < nat (d div h)" using q assms(2) by simp_all
  with n f show ?thesis by blast
qed

section \<open>The encoder\<close>

lemma encoder_layer_init_wf:
  assumes "EncoderLayer_init mem d h f p init = Inr l"
  shows "(\<exists>iq ik iv io. MultiHeadAttention_init mem d h p iq ik iv io = Inr (enc_self_attention l))
     \<and> in_features (ff_linear1 (enc_feed_forward l)) = nat d
     \<and> in_features (ff_linear2 (enc_feed_forward l)) = out_features (ff_linear1 (enc_feed_forward l))
     \<and> out_features (ff_linear2 (enc_feed_forward l)) = nat d
     \<and> normalized_size (enc_norm1 l) = nat d \<and> normalized_size (enc_norm2 l) = nat d"
proof -
  obtain att where att: "MultiHeadAttention_init mem d h p (ei_q init) (ei_k init) (ei_v init) (ei_o init) = Inr att"
    using assms by (cases "MultiHeadAttention_init mem d h p (ei_q init) (ei_k init) (ei_v init) (ei_o init)")
      (simp_all add: EncoderLayer_init_def)
  obtain ff where ff: "FeedForward_init mem d f p (ei_ff1 init) (ei_ff2 init) = Inr ff"
    using assms att by (cases "FeedForward_init mem d f p (ei_ff1 init) (ei_ff2 init)")
      (simp_all add: EncoderLayer_init_def)
  obtain n1 where n1: "nn_LayerNorm mem d (ei_norm1 init) = Inr n1"
    using assms att ff by (cases "nn_LayerNorm mem d (ei_norm1 init)") (simp_all add: EncoderLayer_init_def)
  obtain n2 where n2: "nn_LayerNorm mem d (ei_norm2 init) = Inr n2"
    using assms att ff n1 by (cases "nn_LayerNorm mem d (ei_norm2 init)") (simp_all add: EncoderLayer_init_def)
  obtain q where q: "nn_Dropout p = Inr q"
    using assms att ff n1 n2 by (cases "nn_Dropout p") (simp_all add: EncoderLayer_init_def)
  have l: "l = \<lparr>enc_self_attention = att, enc_feed_forward = ff, enc_norm1 = n1, enc_norm2 = n2,
          enc_dropout = q\<rparr>"
    using assms att ff n1 n2 q by (simp add: EncoderLayer_init_def)
  have f: "in_features (ff_linear1 ff) = nat d \<and> in_features (ff_linear2 ff) = out_features (ff_linear1 ff)
     \<and> out_features (ff_linear2 ff) = nat d"
    using ff by (auto simp: FeedForward_init_def nn_Linear_def nn_Dropout_def bindE_def split: if_splits)
  have n: "normalized_size n1 = nat d" "normalized_size n2 = nat d"
    using n1 n2 by (auto simp: nn_LayerNorm_def split: if_splits)
  have "\<exists>iq ik iv io. MultiHeadAttention_init mem d h p iq ik iv io = Inr (enc_self_attention l)"
    using att l by (intro exI[of _ "ei_q init"] exI[of _ "ei_k init"] exI[of _ "ei_v init"]
        exI[of _ "ei_o init"]) simp
  then show ?thesis using f n l by simp
qed

lemma related_encoder_layer:
  assumes rel: "related len B S (nat d) x x'"
    and init: "EncoderLayer_init mem d h f p init = Inr l" "0 < h" "0 < d"
    and B: "0 < B"
    and mask: "shape m = [B, 1, 1, S]" "\<forall>b<B. \<forall>j<S. elem m [b, 0, 0, j] = (j < len b)"
  shows "\<exists>y y'. EncoderLayer_forward l md dr x (Some m) = Inr y
             \<and> EncoderLayer_forward l md dr x' (Some m) = Inr y'
             \<and> related len B S (nat d) y y'"
proof -
  let ?D = "nat d"
  from encoder_layer_init_wf[OF init(1)] obtain iq ik iv io where
    att: "MultiHeadAttention_init mem d h p iq ik iv io = Inr (enc_self_attention l)"
    and ffw: "in_features (ff_linear1 (enc_feed_forward l)) = ?D"
      "in_features (ff_linear2 (enc_feed_forward l)) = out_features (ff_linear1 (enc_feed_forward l))"
      "out_features (ff_linear2 (enc_feed_forward l)) = ?D"
    and nw: "normalized_size (enc_norm1 l) = ?D" "normalized_size (enc_norm2 l) = ?D"
    by blast
  note w = mha_init_wf[OF att init(2,3)]
  have wf: "?D = nat h * nat (d div h)" "0 < B" "0 < nat h" "0 < nat (d div h)"
      "mha_d_model (enc_self_attention l) = int ?D" "mha_num_heads (enc_self_attention l) = int (nat h)"
      "mha_d_k (enc_self_attention l) = int (nat (d div h))"
      "in_features (W_q (enc_self_attention l)) = ?D" "out_features (W_q (enc_self_attention l)) = ?D"
      "in_features (W_k (enc_self_attention l)) = ?D" "out_features (W_k (enc_self_attention l)) = ?D"
      "in_features (W_v (enc_self_attention l)) = ?D" "out_features (W_v (enc_self_attention l)) = ?D"
    and wo: "in_features (W_o (enc_self_attention l)) = ?D" "out_features (W_o (enc_self_attention l)) = ?D"
    using w B by blast+
  obtain a a' where a:
      "MultiHeadAttention_forward (enc_self_attention l) md (ed_attention dr) x x x (Some m) = Inr a"
      "MultiHeadAttention_forward (enc_self_attention l) md (ed_attention dr) x' x' x' (Some m) = Inr a'"
      "related len B S ?D a a'"
    using related_mha[OF rel wf wo mask] by blast
  have "related len B S ?D (dropout (enc_dropout l) md (ed_residual1 dr) a)
          (dropout (enc_dropout l) md (ed_residual1 dr) a')"
    using a(3) by (rule related_dropout)
  from related_add[OF rel this] obtain r1 r1' where r1:
      "tensor_add x (dropout (enc_dropout l) md (ed_residual1 dr) a) = Inr r1"
      "tensor_add x' (dropout (enc_dropout l) md (ed_residual1 dr) a') = Inr r1'"
      "related len B S ?D r1 r1'"
    by blast
  from related_layer_norm[OF r1(3) nw(1)] obtain x1 x1' where x1:
      "LayerNorm_forward (enc_norm1 l) r1 = Inr x1" "LayerNorm_forward (enc_norm1 l) r1' = Inr x1'"
      "related len B S ?D x1 x1'"
    by blast
  from related_feed_forward[OF x1(3) ffw] obtain g g' where g:
      "FeedForward_forward (enc_feed_forward l) md (ed_feed_forward dr) x1 = Inr g"
      "FeedForward_forward (enc_feed_forward l) md (ed_feed_forward dr) x1' = Inr g'"
      "related len B S ?D g g'"
    by blast
  have "related len B S ?D (dropout (enc_dropout l) md (ed_residual2 dr) g)
          (dropout (enc_dropout l) md (ed_residual2 dr) g')"
    using g(3) by (rule related_dropout)
  from related_add[OF x1(3) this] obtain r2 r2' where r2:
      "tensor_add x1 (dropout (enc_dropout l) md (ed_residual2 dr) g) = Inr r2"
      "tensor_add x1' (dropout (enc_dropout l) md (ed_residual2 dr) g') = Inr r2'"
      "related len B S ?D r2 r2'"
    by blast
  from related_layer_norm[OF r2(3) nw(2)] obtain y y' where y:
      "LayerNorm_forward (enc_norm2 l) r2 = Inr y" "LayerNorm_forward (enc_norm2 l) r2' = Inr y'"
      "related len B S ?D y y'"
    by blast
  have "EncoderLayer_forward l md dr x (Some m) = Inr y"
    "EncoderLayer_forward l md dr x' (Some m) = Inr y'"
    unfolding EncoderLayer_forward_def a(1,2) bindE_simps r1(1,2) x1(1,2) g(1,2) r2(1,2) y(1,2)
    by simp_all
  with y(3) show ?thesis by blast
qed

lemma related_encoder_stack:
  assumes "\<forall>l\<in>set ls. \<exists>f p init. EncoderLayer_init mem d h f p init = Inr l"
    and "related len B S (nat d) x x'"
    and "0 < h" "0 < d" "0 < B"
    and "shape m = [B, 1, 1, S]" "\<forall>b<B. \<forall>j<S. elem m [b, 0, 0, j] = (j < len b)"
  shows "\<exists>y y'. encoder_stack ls md dr n x (Some m) = Inr y
             \<and> encoder_stack ls md dr n x' (Some m) = Inr y'
             \<and> related len B S (nat d) y y'"
  using assms(1,2)
proof (induction ls arbitrary: n x x')
  case Nil
  then show ?case by simp
next
  case (Cons l ls)
  then obtain f p init where init: "EncoderLayer_init mem d h f p init = Inr l" by auto
  from related_encoder_layer[OF Cons.prems(2) init assms(3,4,5,6,7)] obtain z z' where z:
      "EncoderLayer_forward l md (dr n) x (Some m) = Inr z"
      "EncoderLayer_forward l md (dr n) x' (Some m) = Inr z'"
      "related len B S (nat d) z z'"
    by blast
  have "\<forall>l\<in>set ls. \<exists>f p init. EncoderLayer_init mem d h f p init = Inr l" using Cons.prems(1) by simp
  from Cons.IH[OF this z(3)] show ?case using z(1,2) by simp
qed

lemma all_indices_2: "idx \<in> set (all_indices [B, S]) \<Longrightarrow> \<exists>b<B. \<exists>s<S. idx = [b, s]"
  by auto

lemma embedding_forward_2:
  assumes "shape t = [B, S]"
    and "\<forall>b<B. \<forall>s<S. 0 \<le> elem t [b, s] \<and> elem t [b, s] < int (num_embeddings e)"
  shows "embedding_forward e t = Inr \<lparr>shape = [B, S, embedding_dim e],
            elem = (\<lambda>idx. Fin (emb_table e (nat (elem t (butlast idx))) (last idx)))\<rparr>"
proof -
  have "\<not> list_ex (\<lambda>idx. elem t idx < 0 \<or> int (num_embeddings e) \<le> elem t idx) (all_indices [B, S])"
    unfolding list_ex_iff using assms(2) all_indices_2 by fastforce
  then show ?thesis using assms(1) by (simp add: embedding_forward_def)
qed

lemma pe_entries_fin:
  assumes "PositionalEncoding_init mem d L = Inr P" "pos < nat L" "c < nat d"
  shows "is_fin (elem (pe P) [0, pos, c])"
proof -
  from init_Inr[OF assms(1)] obtain t where ok: "0 \<le> L" "0 < d"
      "allocates mem (nat L * nat d)" "allocates mem ((nat d + 1) div 2)" "even d \<or> d = 1"
    and t: "pe_table mem d L = Inr t" "\<forall>pos c. elem (pe P) [0, pos, c] = elem t [pos, c]"
    by blast
  obtain t' where t': "pe_table mem d L = Inr t'"
      "\<forall>pos i. pos < nat L \<longrightarrow> 2 * i < nat d \<longrightarrow>
            elem t' [pos, 2 * i] = Fin (sin (real pos / 10000 powr (real (2 * i) / real_of_int d)))"
      "\<forall>pos i. pos < nat L \<longrightarrow> 2 * i + 1 < nat d \<longrightarrow>
            elem t' [pos, 2 * i + 1] = Fin (cos (real pos / 10000 powr (real (2 * i) / real_of_int d)))"
    using pe_table_char[OF ok] by blast
  have tt: "t' = t" using t(1) t'(1) by simp
  have "is_fin (elem t [pos, c])"
  proof (cases "even c")
    case True
    then obtain i where "c = 2 * i" by (elim evenE)
    then show ?thesis using t'(2)[rule_format, of pos i] assms(2,3) tt by simp
  next
    case False
    then obtain i where "c = 2 * i + 1" by (elim oddE)
    then show ?thesis using t'(3)[rule_format, of pos i] assms(2,3) tt by simp
  qed
  then show ?thesis using t(2) by simp
qed

lemma related_embed:
  assumes pe: "PositionalEncoding_init mem d L = Inr (tf_positional_encoding T)"
    and dim: "embedding_dim emb = nat d"
    and sh: "shape src = [B, S]" "shape src' = [B, S]" "int S \<le> L"
    and rng: "\<forall>b<B. \<forall>s<S. 0 \<le> elem src [b, s] \<and> elem src [b, s] < int (num_embeddings emb)"
      "\<forall>b<B. \<forall>s<S. 0 \<le> elem src' [b, s] \<and> elem src' [b, s] < int (num_embeddings emb)"
    and agree: "\<forall>b<B. \<forall>s<S. s < len b \<longrightarrow> elem src' [b, s] = elem src [b, s]"
  shows "\<exists>y y'. embed T emb md keep src = Inr y \<and> embed T emb md keep src' = Inr y'
             \<and> related len B S (nat d) y y'"
proof -
  let ?P = "tf_positional_encoding T" and ?D = "nat d"
  let ?e = "\<lambda>t. \<lparr>shape = [B, S, embedding_dim emb],
            elem = (\<lambda>idx. Fin (emb_table emb (nat (elem t (butlast idx))) (last idx)))\<rparr>"
  have e: "embedding_forward emb src = Inr (?e src)" "embedding_forward emb src' = Inr (?e src')"
    using embedding_forward_2[OF sh(1) rng(1)] embedding_forward_2[OF sh(2) rng(2)] .
  have she: "shape (?e src) = [B, S, ?D]" "shape (?e src') = [B, S, ?D]" using dim by simp_all
  from pe_forward_char[OF pe she(1)] sh(3) obtain y where y:
      "PositionalEncoding_forward ?P (?e src) = Inr y" "shape y = [B, S, ?D]"
      "\<forall>b<B. \<forall>i<S. \<forall>k<?D. elem y [b, i, k] = fl_add (elem (?e src) [b, i, k]) (elem (pe ?P) [0, i, k])"
    by blast
  from pe_forward_char[OF pe she(2)] sh(3) obtain y' where y':
      "PositionalEncoding_forward ?P (?e src') = Inr y'" "shape y' = [B, S, ?D]"
      "\<forall>b<B. \<forall>i<S. \<forall>k<?D. elem y' [b, i, k] = fl_add (elem (?e src') [b, i, k]) (elem (pe ?P) [0, i, k])"
    by blast
  have "is_fin (elem y [b, s, k]) \<and> is_fin (elem y' [b, s, k]) \<and>
         (s < len b \<longrightarrow> elem y [b, s, k] = elem y' [b, s, k])"
    if "b < B" "s < S" "k < ?D" for b s k
  proof -
    have "s < nat L" using that(2) sh(3) by simp
    from pe_entries_fin[OF pe this that(3)] obtain r where "elem (pe ?P) [0, s, k] = Fin r"
      by (auto simp: is_fin_iff)
    then show ?thesis
      using y(3)[rule_format, OF that] y'(3)[rule_format, OF that] agree that by simp
  qed
  then have "related len B S ?D y y'" using y(2) y'(2) by (simp add: related_def)
  then have "related len B S ?D (dropout (tf_dropout T) md keep y) (dropout (tf_dropout T) md keep y')"
    by (rule related_dropout)
  moreover have "embed T emb md keep src = Inr (dropout (tf_dropout T) md keep y)"
    "embed T emb md keep src' = Inr (dropout (tf_dropout T) md keep y')"
    unfolding embed_def e bindE_simps y(1) y'(1) by simp_all
  ultimately show ?thesis by blast
qed

text \<open>
  Claim C5. Two runs of the encoder side of \<open>Transformer.forward\<close> on source batches that
  agree at the real positions of every row, with one source mask that leaves exactly
  the positions before the true length of each row attendable, with the same model, mode
  and dropout draws: both runs return, and the encoder outputs are equal at every real
  position. The model is one that the constructors build (on any machine, with any
  parameter values) for a positive number of heads; the batch is not empty, the sequence
  is not longer than \<open>max_seq_length\<close> and the tokens of both runs are in the vocabulary,
  which is when the forward pass returns.
\<close>

theorem encoder_padding_invariance:
  assumes "PositionalEncoding_init mem d_model max_seq_length = Inr (tf_positional_encoding T)"
    and "embedding_dim (tf_encoder_embedding T) = nat d_model"
    and "\<forall>l\<in>set (tf_encoder_layers T).
           \<exists>d_ff p init. EncoderLayer_init mem d_model num_heads d_ff p init = Inr l"
    and "0 < num_heads"
    and "shape src = [B, S]" "shape src' = [B, S]" "0 < B" "int S \<le> max_seq_length"
    and "\<forall>b<B. \<forall>s<S. 0 \<le> elem src [b, s]
           \<and> elem src [b, s] < int (num_embeddings (tf_encoder_embedding T))"
    and "\<forall>b<B. \<forall>s<S. 0 \<le> elem src' [b, s]
           \<and> elem src' [b, s] < int (num_embeddings (tf_encoder_embedding T))"
    and "\<forall>b<B. \<forall>s<S. s < len b \<longrightarrow> elem src' [b, s] = elem src [b, s]"
    and "shape m = [B, 1, 1, S]" "\<forall>b<B. \<forall>j<S. elem m [b, 0, 0, j] = (j < len b)"
  shows "\<exists>y y'. encoder_output T md dr src (Some m) = Inr y
             \<and> encoder_output T md dr src' (Some m) = Inr y'
             \<and> shape y = [B, S, nat d_model] \<and> shape y' = [B, S, nat d_model]
             \<and> (\<forall>b<B. \<forall>s<S. s < len b \<longrightarrow>
                   (\<forall>k<nat d_model. elem y [b, s, k] = elem y' [b, s, k]))"
proof -
  have d: "0 < d_model" using init_Inr[OF assms(1)] by blast
  obtain x x' where x: "embed T (tf_encoder_embedding T) md (fd_src dr) src = Inr x"
      "embed T (tf_encoder_embedding T) md (fd_src dr) src' = Inr x'"
      "related len B S (nat d_model) x x'"
    using related_embed[OF assms(1,2,5,6,8,9,10,11)] by blast
  obtain y y' where y: "encoder_stack (tf_encoder_layers T) md (fd_encoder dr) 0 x (Some m) = Inr y"
      "encoder_stack (tf_encoder_layers T) md (fd_encoder dr) 0 x' (Some m) = Inr y'"
      "related len B S (nat d_model) y y'"
    using related_encoder_stack[OF assms(3) x(3) assms(4) d assms(7,12,13)] by blast
  have run: "encoder_output T md dr src (Some m) = Inr y" "encoder_output T md dr src' (Some m) = Inr y'"
    unfolding encoder_output_def x(1,2) bindE_simps y(1,2) by simp_all
  have "elem y [b, s, k] = elem y' [b, s, k]" if "b < B" "s < S" "s < len b" "k < nat d_model" for b s k
  proof -
    have "0 < len b" using that(3) by simp
    then show ?thesis using y(3) that by (simp add: related_def)
  qed
  moreover have "shape y = [B, S, nat d_model]" "shape y' = [B, S, nat d_model]"
    using y(3) by (simp_all add: related_def)
  ultimately show ?thesis using run by blast
qed

text \<open>
  The theorem at a model of one encoder layer with \<open>d_model = 2\<close> and one head, in
  training mode, on the sources \<open>[[1, 0]]\<close> and \<open>[[1, 2]]\<close> of true length 1.
\<close>

theorem encoder_padding_invariance_witness:
  "\<exists>P l y y'.
     PositionalEncoding_init 100 2 2 = Inr P
   \<and> EncoderLayer_init 100 2 1 2 (1/10)
        \<lparr>ei_q = (\<lambda>r c. 1, \<lambda>r. 0), ei_k = (\<lambda>r c. 1, \<lambda>r. 0), ei_v = (\<lambda>r c. 1, \<lambda>r. 0),
         ei_o = (\<lambda>r c. 1, \<lambda>r. 0), ei_ff1 = (\<lambda>r c. 1, \<lambda>r. 0), ei_ff2 = (\<lambda>r c. 1, \<lambda>r. 0),
         ei_norm1 = (\<lambda>k. 1, \<lambda>k. 0), ei_norm2 = (\<lambda>k. 1, \<lambda>k. 0)\<rparr> = Inr l
   \<and> encoder_output
        \<lparr>tf_encoder_embedding = \<lparr>num_embeddings = 3, embedding_dim = 2, emb_table = (\<lambda>i k. real i)\<rparr>,
         tf_decoder_embedding = \<lparr>num_embeddings = 3, embedding_dim = 2, emb_table = (\<lambda>i k. real i)\<rparr>,
         tf_positional_encoding = P, tf_encoder_layers = [l], tf_decoder_layers = [],
         tf_final_layer = \<lparr>in_features = 2, out_features = 3, weight = (\<lambda>r c. 1), bias = (\<lambda>r. 0)\<rparr>,
         tf_dropout = 1/10\<rparr>
        Train
        \<lparr>fd_src = (\<lambda>idx. True),
         fd_encoder = (\<lambda>n. \<lparr>ed_attention = (\<lambda>idx. True), ed_residual1 = (\<lambda>idx. True),
                             ed_feed_forward = (\<lambda>idx. True), ed_residual2 = (\<lambda>idx. True)\<rparr>),
         fd_tgt = (\<lambda>idx. True),
         fd_decoder = (\<lambda>n. \<lparr>dd_self_attention = (\<lambda>idx. True), dd_residual1 = (\<lambda>idx. True),
                             dd_cross_attention = (\<lambda>idx. True), dd_residual2 = (\<lambda>idx. True),
                             dd_feed_forward = (\<lambda>idx. True), dd_residual3 = (\<lambda>idx. True)\<rparr>)\<rparr>
        \<lparr>shape = [1, 2], elem = (\<lambda>idx. if idx = [0, 0] then 1 else 0)\<rparr>
        (Some \<lparr>shape = [1, 1, 1, 2], elem = (\<lambda>idx. idx = [0, 0, 0, 0])\<rparr>) = Inr y
   \<and> encoder_output
        \<lparr>tf_encoder_embedding = \<lparr>num_embeddings = 3, embedding_dim = 2, emb_table = (\<lambda>i k. real i)\<rparr>,
         tf_decoder_embedding = \<lparr>num_embeddings = 3, embedding_dim = 2, emb_table = (\<lambda>i k. real i)\<rparr>,
         tf_positional_encoding = P, tf_encoder_layers = [l], tf_decoder_layers = [],
         tf_final_layer = \<lparr>in_features = 2, out_features = 3, weight = (\<lambda>r c. 1), bias = (\<lambda>r. 0)\<rparr>,
         tf_dropout = 1/10\<rparr>
        Train
        \<lparr>fd_src = (\<lambda>idx. True),
         fd_encoder = (\<lambda>n. \<lparr>ed_attention = (\<lambda>idx. True), ed_residual1 = (\<lambda>idx. True),
                             ed_feed_forward = (\<lambda>idx. True), ed_residual2 = (\<lambda>idx. True)\<rparr>),
         fd_tgt = (\<lambda>idx. True),
         fd_decoder = (\<lambda>n. \<lparr>dd_self_attention = (\<lambda>idx. True), dd_residual1 = (\<lambda>idx. True),
                             dd_cross_attention = (\<lambda>idx. True), dd_residual2 = (\<lambda>idx. True),
                             dd_feed_forward = (\<lambda>idx. True), dd_residual3 = (\<lambda>idx. True)\<rparr>)\<rparr>
        \<lparr>shape = [1, 2], elem = (\<lambda>idx. if idx = [0, 0] then 1 else 2)\<rparr>
        (Some \<lparr>shape = [1, 1, 1, 2], elem = (\<lambda>idx. idx = [0, 0, 0, 0])\<rparr>) = Inr y'
   \<and> shape y = [1, 2, 2] \<and> shape y' = [1, 2, 2]
   \<and> elem y [0, 0, 0] = elem y' [0, 0, 0] \<and> elem y [0, 0, 1] = elem y' [0, 0, 1]"
proof -
  let ?init = "\<lparr>ei_q = (\<lambda>r c. 1::real, \<lambda>r. 0::real), ei_k = (\<lambda>r c. 1, \<lambda>r. 0), ei_v = (\<lambda>r c. 1, \<lambda>r. 0),
         ei_o = (\<lambda>r c. 1, \<lambda>r. 0), ei_ff1 = (\<lambda>r c. 1, \<lambda>r. 0), ei_ff2 = (\<lambda>r c. 1, \<lambda>r. 0),
         ei_norm1 = (\<lambda>k. 1, \<lambda>k. 0), ei_norm2 = (\<lambda>k. 1, \<lambda>k. 0)\<rparr>"
  let ?emb = "\<lparr>num_embeddings = 3, embedding_dim = 2, emb_table = (\<lambda>i k. real i)\<rparr>"
  let ?src = "\<lparr>shape = [1, 2], elem = (\<lambda>idx. if idx = [0, 0] then 1 else (0::int))\<rparr>"
  let ?src' = "\<lparr>shape = [1, 2], elem = (\<lambda>idx. if idx = [0, 0] then 1 else (2::int))\<rparr>"
  let ?m = "\<lparr>shape = [1, 1, 1, 2], elem = (\<lambda>idx. idx = [0, 0, 0, 0::nat])\<rparr>"
  obtain P where P: "PositionalEncoding_init 100 2 2 = Inr P"
    using init_ok[of 2 2 100] by (auto simp: allocates_def max_numel_def)
  obtain l where l: "EncoderLayer_init 100 2 1 2 (1/10) ?init = Inr l"
    by (simp add: EncoderLayer_init_def MultiHeadAttention_init_def FeedForward_init_def
        py_mod_def py_floordiv_def nn_Linear_def nn_Dropout_def nn_LayerNorm_def
        allocates_def max_numel_def)
  let ?T = "\<lparr>tf_encoder_embedding = ?emb, tf_decoder_embedding = ?emb,
         tf_positional_encoding = P, tf_encoder_layers = [l], tf_decoder_layers = [],
         tf_final_layer = \<lparr>in_features = 2, out_features = 3, weight = (\<lambda>r c. 1), bias = (\<lambda>r. 0)\<rparr>,
         tf_dropout = 1/10\<rparr>"
  have h: "PositionalEncoding_init 100 2 2 = Inr (tf_positional_encoding ?T)"
    "embedding_dim (tf_encoder_embedding ?T) = nat 2"
    "\<forall>l\<in>set (tf_encoder_layers ?T). \<exists>d_ff p init. EncoderLayer_init 100 2 1 d_ff p init = Inr l"
    "(0::int) < 1"
    "shape ?src = [1, 2]" "shape ?src' = [1, 2]" "(0::nat) < 1" "int 2 \<le> 2"
    "\<forall>b<1. \<forall>s<2. 0 \<le> elem ?src [b, s] \<and> elem ?src [b, s] < int (num_embeddings (tf_encoder_embedding ?T))"
    "\<forall>b<1. \<forall>s<2. 0 \<le> elem ?src' [b, s] \<and> elem ?src' [b, s] < int (num_embeddings (tf_encoder_embedding ?T))"
    "\<forall>b<1. \<forall>s<2. s < (\<lambda>b. 1::nat) b \<longrightarrow> elem ?src' [b, s] = elem ?src [b, s]"
    "shape ?m = [1, 1, 1, 2]" "\<forall>b<1. \<forall>j<2. elem ?m [b, 0, 0, j] = (j < (\<lambda>b. 1::nat) b)"
    using P l by auto
  let ?dr = "\<lparr>fd_src = (\<lambda>idx. True),
         fd_encoder = (\<lambda>n. \<lparr>ed_attention = (\<lambda>idx. True), ed_residual1 = (\<lambda>idx. True),
                             ed_feed_forward = (\<lambda>idx. True), ed_residual2 = (\<lambda>idx. True)\<rparr>),
         fd_tgt = (\<lambda>idx. True),
         fd_decoder = (\<lambda>n. \<lparr>dd_self_attention = (\<lambda>idx. True), dd_residual1 = (\<lambda>idx. True),
                             dd_cross_attention = (\<lambda>idx. True), dd_residual2 = (\<lambda>idx. True),
                             dd_feed_forward = (\<lambda>idx. True), dd_residual3 = (\<lambda>idx. True)\<rparr>)\<rparr>"
  from encoder_padding_invariance[OF h, where md = Train and dr = ?dr] obtain y y' where y:
     "encoder_output ?T Train ?dr ?src (Some ?m) = Inr y"
     "encoder_output ?T Train ?dr ?src' (Some ?m) = Inr y'"
     "shape y = [1, 2, nat 2]" "shape y' = [1, 2, nat 2]"
     "\<forall>b<1. \<forall>s<2. s < 1 \<longrightarrow> (\<forall>k<nat 2. elem y [b, s, k] = elem y' [b, s, k])"
    by (elim exE conjE)
  have e: "elem y [0, 0, 0] = elem y' [0, 0, 0]" "elem y [0, 0, 1] = elem y' [0, 0, 1]"
    using y(5)[rule_format, of 0 0 0] y(5)[rule_format, of 0 0 1] by simp_all
  have s: "shape y = [1, 2, 2]" "shape y' = [1, 2, 2]" using y(3,4) by simp_all
  show ?thesis
    using P l y(1,2) s e by (intro exI[of _ P] exI[of _ l] exI[of _ y] exI[of _ y'] conjI)
qed

end
